theory Spec2Isabelle
  imports Complex_Main "HOL-Library.Word"
begin

section \<open>JavaScript strings\<close>

text \<open>
  A JavaScript string is a sequence of code units and \<open>length\<close> counts them. The model
  uses \<^typ>\<open>string\<close>, whose characters have 256 values, so it covers the code units of
  Latin-1. In that range the regular expression class \<open>\s\<close> and \<open>String.prototype.trim\<close>
  agree on the same seven characters: TAB, LF, VT, FF, CR, SPACE and NBSP.
\<close>

definition is_space :: "char \<Rightarrow> bool" where
  "is_space c = (of_char c \<in> {9, 10, 11, 12, 13, 32, 160 :: nat})"

definition newline :: char where
  "newline = CHR 0x0A"

definition trim :: "string \<Rightarrow> string" where
  "trim s = rev (dropWhile is_space (rev (dropWhile is_space s)))"

definition startsWith :: "string \<Rightarrow> string \<Rightarrow> bool" where
  "startsWith s p = (take (length p) s = p)"

text \<open>
  \<open>s.split(/C+/)\<close> for a character class \<open>C\<close>: the pieces between the maximal runs of
  separator characters. A run at the start or at the end leaves an empty piece there, and
  the empty string splits into one empty piece.
\<close>

function split_on :: "(char \<Rightarrow> bool) \<Rightarrow> string \<Rightarrow> string list" where
  "split_on sep [] = [[]]"
| "split_on sep (c # cs) =
     (if sep c then [] # split_on sep (dropWhile sep cs)
      else (case split_on sep cs of
              [] \<Rightarrow> [[c]]
            | t # ts \<Rightarrow> (c # t) # ts))"
  by pat_completeness auto
termination
  by (relation "measure (\<lambda>(sep, s). length s)")
     (auto simp: le_imp_less_Suc length_dropWhile_le)

text \<open>
  A match of \<open>/\n\s*\n/\<close> anchored at the head of the string, as its length. After the
  first line feed the greedy \<open>\s*\<close> takes the whole run of white space and gives back
  characters until a line feed follows: the match ends at the last line feed of that run.
\<close>

definition paragraph_break :: "string \<Rightarrow> nat option" where
  "paragraph_break s =
     (case s of
        [] \<Rightarrow> None
      | c # cs \<Rightarrow>
          (let w = takeWhile is_space cs in
           if c = newline \<and> newline \<in> set w
           then Some (Suc (length w - length (takeWhile (\<lambda>x. x \<noteq> newline) (rev w))))
           else None))"

lemma paragraph_break_pos: "paragraph_break s = Some n \<Longrightarrow> 0 < n"
  by (auto simp: paragraph_break_def Let_def split: list.splits if_splits)

function split_paragraphs :: "string \<Rightarrow> string list" where
  "split_paragraphs [] = [[]]"
| "split_paragraphs (c # cs) =
     (case paragraph_break (c # cs) of
        Some n \<Rightarrow> [] # split_paragraphs (drop n (c # cs))
      | None \<Rightarrow>
          (case split_paragraphs cs of
             [] \<Rightarrow> [[c]]
           | t # ts \<Rightarrow> (c # t) # ts))"
  by pat_completeness auto
termination
  by (relation "measure length") (auto dest: paragraph_break_pos)

text \<open>
  A match of \<open>/https?:\/\/\S+/\<close> anchored at the head of the string, as its length: the
  scheme, then the whole run of characters that are not white space, which must not be
  empty.
\<close>

definition url_at :: "string \<Rightarrow> nat option" where
  "url_at s =
     (if startsWith s ''https://'' \<and> takeWhile (\<lambda>c. \<not> is_space c) (drop 8 s) \<noteq> []
      then Some (8 + length (takeWhile (\<lambda>c. \<not> is_space c) (drop 8 s)))
      else if startsWith s ''http://'' \<and> takeWhile (\<lambda>c. \<not> is_space c) (drop 7 s) \<noteq> []
      then Some (7 + length (takeWhile (\<lambda>c. \<not> is_space c) (drop 7 s)))
      else None)"

lemma url_at_pos: "url_at s = Some n \<Longrightarrow> 0 < n"
  by (auto simp: url_at_def split: if_splits)

text \<open>\<open>s.match(/https?:\/\/\S+/g) || []\<close>: the matches from left to right, none overlapping.\<close>

function url_matches :: "string \<Rightarrow> string list" where
  "url_matches [] = []"
| "url_matches (c # cs) =
     (case url_at (c # cs) of
        Some n \<Rightarrow> take n (c # cs) # url_matches (drop n (c # cs))
      | None \<Rightarrow> url_matches cs)"
  by pat_completeness auto
termination
  by (relation "measure length") (auto dest: url_at_pos)

definition is_upper :: "char \<Rightarrow> bool" where
  "is_upper c = (65 \<le> (of_char c :: nat) \<and> (of_char c :: nat) \<le> 90)"

definition is_sentence_end :: "char \<Rightarrow> bool" where
  "is_sentence_end c = (c = CHR ''.'' \<or> c = CHR ''!'' \<or> c = CHR ''?'')"


section \<open>JavaScript numbers\<close>

text \<open>
  A number of JavaScript is a double. The finite ones are modelled as reals, and an
  arithmetic operation returns the double nearest to the exact result, a tie going to the
  even mantissa, as IEEE 754 lays down for \<open>+\<close>, \<open>-\<close>, \<open>*\<close> and \<open>/\<close>. \<open>double x\<close> is that
  double: with \<open>2 ^ e \<le> \<bar>x\<bar> < 2 ^ (e + 1)\<close> the doubles around \<open>x\<close> are the multiples of
  \<open>2 ^ (e - 52)\<close>. A decimal literal of the source, such as \<open>0.3\<close>, denotes \<open>double 0.3\<close>.
  Overflow to an infinity and the coarser spacing of the doubles below \<open>2 ^ -1022\<close> are
  outside the model: the numbers of a post are taken to lie inside the normal range, as
  counts of votes and times in seconds do. Zero has no sign in the model.
\<close>

definition round_to_even :: "real \<Rightarrow> int" where
  "round_to_even y =
     (let f = \<lfloor>y\<rfloor> in
      if y - of_int f < 1 / 2 then f
      else if 1 / 2 < y - of_int f then f + 1
      else if even f then f else f + 1)"

definition double :: "real \<Rightarrow> real" where
  "double x =
     (if x = 0 then 0
      else (let e = \<lfloor>log 2 \<bar>x\<bar>\<rfloor>; ulp = 2 powr (of_int e - 52)
            in of_int (round_to_even (x / ulp)) * ulp))"

text \<open>
  The values that are not numbers of the real line are kept, since \<open>Math.log10\<close> produces
  them from finite arguments: \<open>NaN\<close> below zero and \<open>-Infinity\<close> at zero.
\<close>

datatype jsnum = Num real | PosInfinity | NegInfinity | NaN

fun js_neg :: "jsnum \<Rightarrow> jsnum" where
  "js_neg (Num a) = Num (- a)"
| "js_neg PosInfinity = NegInfinity"
| "js_neg NegInfinity = PosInfinity"
| "js_neg NaN = NaN"

fun js_add :: "jsnum \<Rightarrow> jsnum \<Rightarrow> jsnum" where
  "js_add (Num a) (Num b) = Num (double (a + b))"
| "js_add NaN y = NaN"
| "js_add x NaN = NaN"
| "js_add PosInfinity NegInfinity = NaN"
| "js_add NegInfinity PosInfinity = NaN"
| "js_add PosInfinity y = PosInfinity"
| "js_add x PosInfinity = PosInfinity"
| "js_add NegInfinity y = NegInfinity"
| "js_add x NegInfinity = NegInfinity"

definition js_sub :: "jsnum \<Rightarrow> jsnum \<Rightarrow> jsnum" where
  "js_sub x y = js_add x (js_neg y)"

text \<open>An infinity times \<open>y\<close>; \<open>pos\<close> tells the sign of the infinity.\<close>

fun inf_times :: "bool \<Rightarrow> jsnum \<Rightarrow> jsnum" where
  "inf_times pos NaN = NaN"
| "inf_times pos PosInfinity = (if pos then PosInfinity else NegInfinity)"
| "inf_times pos NegInfinity = (if pos then NegInfinity else PosInfinity)"
| "inf_times pos (Num b) =
     (if b = 0 then NaN
      else if (0 < b) = pos then PosInfinity else NegInfinity)"

fun js_mul :: "jsnum \<Rightarrow> jsnum \<Rightarrow> jsnum" where
  "js_mul (Num a) (Num b) = Num (double (a * b))"
| "js_mul NaN y = NaN"
| "js_mul PosInfinity y = inf_times True y"
| "js_mul NegInfinity y = inf_times False y"
| "js_mul (Num a) PosInfinity = inf_times True (Num a)"
| "js_mul (Num a) NegInfinity = inf_times False (Num a)"
| "js_mul (Num a) NaN = NaN"

fun js_div :: "jsnum \<Rightarrow> jsnum \<Rightarrow> jsnum" where
  "js_div (Num a) (Num b) =
     (if b \<noteq> 0 then Num (double (a / b))
      else if 0 < a then PosInfinity else if a < 0 then NegInfinity else NaN)"
| "js_div NaN y = NaN"
| "js_div x NaN = NaN"
| "js_div (Num a) y = Num 0"
| "js_div PosInfinity (Num b) = (if 0 \<le> b then PosInfinity else NegInfinity)"
| "js_div NegInfinity (Num b) = (if 0 \<le> b then NegInfinity else PosInfinity)"
| "js_div x y = NaN"

fun Math_min :: "jsnum \<Rightarrow> jsnum \<Rightarrow> jsnum" where
  "Math_min (Num a) (Num b) = Num (min a b)"
| "Math_min NaN y = NaN"
| "Math_min x NaN = NaN"
| "Math_min NegInfinity y = NegInfinity"
| "Math_min x NegInfinity = NegInfinity"
| "Math_min PosInfinity y = y"
| "Math_min x PosInfinity = x"

fun Math_max :: "jsnum \<Rightarrow> jsnum \<Rightarrow> jsnum" where
  "Math_max (Num a) (Num b) = Num (max a b)"
| "Math_max NaN y = NaN"
| "Math_max x NaN = NaN"
| "Math_max PosInfinity y = PosInfinity"
| "Math_max x PosInfinity = PosInfinity"
| "Math_max NegInfinity y = y"
| "Math_max x NegInfinity = x"

text \<open>
  \<open>Math.log10\<close>. ECMAScript fixes its value at 1, at zero, below zero and at the values
  that are not finite; everywhere else the result is an approximation of the logarithm
  that the engine chooses. That choice is the parameter \<open>lg\<close>: what is proved below holds
  for every engine.
\<close>

fun Math_log10 :: "(real \<Rightarrow> real) \<Rightarrow> jsnum \<Rightarrow> jsnum" where
  "Math_log10 lg (Num x) =
     (if x < 0 then NaN
      else if x = 0 then NegInfinity
      else if x = 1 then Num 0
      else Num (lg x))"
| "Math_log10 lg PosInfinity = PosInfinity"
| "Math_log10 lg NegInfinity = NaN"
| "Math_log10 lg NaN = NaN"

text \<open>The comparisons \<open><=\<close> and \<open><\<close> of JavaScript numbers: false as soon as one side is \<open>NaN\<close>.\<close>

fun js_le :: "jsnum \<Rightarrow> jsnum \<Rightarrow> bool" where
  "js_le (Num a) (Num b) = (a \<le> b)"
| "js_le NaN y = False"
| "js_le x NaN = False"
| "js_le NegInfinity y = True"
| "js_le x PosInfinity = True"
| "js_le x y = False"

fun js_lt :: "jsnum \<Rightarrow> jsnum \<Rightarrow> bool" where
  "js_lt (Num a) (Num b) = (a < b)"
| "js_lt NaN y = False"
| "js_lt x NaN = False"
| "js_lt PosInfinity y = False"
| "js_lt x NegInfinity = False"
| "js_lt NegInfinity y = True"
| "js_lt x PosInfinity = True"

text \<open>A score lies in the interval from 0 to 1: it is a number, and in range.\<close>

fun in_unit_interval :: "jsnum \<Rightarrow> bool" where
  "in_unit_interval (Num x) = (0 \<le> x \<and> x \<le> 1)"
| "in_unit_interval v = False"


section \<open>The post analyzer\<close>

text \<open>
  \<open>RedditPost\<close> of \<open>types/reddit.ts\<close>. The field \<open>id\<close> is \<open>post_id\<close> here;
  \<open>score\<close>, \<open>num_comments\<close> and \<open>created_utc\<close> are finite numbers: the doubles that
  the program holds.
\<close>

record RedditPost =
  post_id :: string
  title :: string
  author :: string
  score :: real
  num_comments :: real
  created_utc :: real
  selftext :: string
  permalink :: string
  subreddit :: string

record PostScore =
  post :: RedditPost
  engagementScore :: jsnum
  textLength :: nat
  contentQuality :: jsnum
  totalScore :: jsnum

text \<open>\<open>POST_SELECTION_CONFIG\<close>.\<close>

definition weights_engagement :: real where "weights_engagement = double 0.4"
definition weights_textLength :: real where "weights_textLength = double 0.3"
definition weights_quality :: real where "weights_quality = double 0.3"

definition textLength_min :: nat where "textLength_min = 50"
definition textLength_ideal_min :: nat where "textLength_ideal_min = 100"
definition textLength_ideal_max :: nat where "textLength_ideal_max = 500"
definition textLength_max :: nat where "textLength_max = 800"

definition countWords :: "string \<Rightarrow> nat" where
  "countWords txt =
     (if txt = [] \<or> length (trim txt) = 0 then 0
      else length (split_on is_space (trim txt)))"

text \<open>\<open>now\<close> is the reading of the clock, \<open>Date.now() / 1000\<close>.\<close>

definition getPostAgeHours :: "real \<Rightarrow> real \<Rightarrow> jsnum" where
  "getPostAgeHours now created =
     (let ageSeconds = js_sub (Num now) (Num created)
      in Math_max (js_div ageSeconds (Num 3600)) (Num (double 0.1)))"

definition calculateEngagementScore :: "(real \<Rightarrow> real) \<Rightarrow> real \<Rightarrow> RedditPost \<Rightarrow> jsnum" where
  "calculateEngagementScore lg now p =
     (let ageHours = getPostAgeHours now (created_utc p);
          rawEngagement =
            js_div (js_add (Num (score p)) (js_mul (Num (num_comments p)) (Num (double 0.3))))
                   ageHours
      in Math_min (js_div (Math_log10 lg (js_add rawEngagement (Num 1))) (Num 3)) (Num 1))"

definition calculateTextLengthScore :: "nat \<Rightarrow> jsnum" where
  "calculateTextLengthScore wordCount =
     (if wordCount = 0 then Num 0
      else if wordCount < textLength_min
      then js_mul (js_div (Num (real wordCount)) (Num (real textLength_min))) (Num (double 0.3))
      else if wordCount \<ge> textLength_ideal_min \<and> wordCount \<le> textLength_ideal_max
      then Num 1.0
      else if wordCount < textLength_ideal_min
      then (let range = js_sub (Num (real textLength_ideal_min)) (Num (real textLength_min));
                position = js_sub (Num (real wordCount)) (Num (real textLength_min))
            in js_add (Num (double 0.3)) (js_mul (js_div position range) (Num (double 0.7))))
      else if wordCount \<le> textLength_max
      then (let range = js_sub (Num (real textLength_max)) (Num (real textLength_ideal_max));
                position = js_sub (Num (real wordCount)) (Num (real textLength_ideal_max))
            in js_sub (Num 1.0) (js_mul (js_div position range) (Num (double 0.5))))
      else Num (double 0.3))"

definition calculateContentQuality :: "string \<Rightarrow> jsnum" where
  "calculateContentQuality txt =
     (if txt = [] \<or> length (trim txt) = 0 then Num 0
      else
        (let paragraphs = filter (\<lambda>p. length (trim p) > 0) (split_paragraphs txt);
             s1 = (if length paragraphs > 1
                   then js_add (Num (double 0.5)) (Num (double 0.2)) else Num (double 0.5));
             sentences = filter (\<lambda>s. length (trim s) > 0) (split_on is_sentence_end txt);
             s2 = (if length sentences > 2 then js_add s1 (Num (double 0.15)) else s1);
             capsRatio = js_div (Num (real (length (filter is_upper txt))))
                                (Num (real (length txt)));
             s3 = (if js_lt (Num (double 0.3)) capsRatio
                   then js_sub s2 (Num (double 0.2)) else s2);
             urlCount = length (url_matches txt);
             s4 = (if urlCount > 2 then js_sub s3 (Num (double 0.15)) else s3)
         in Math_max (Num 0) (Math_min (Num 1) s4)))"

text \<open>The length of \<open>(selftext.match(/https?:\/\/\S+/g) || []).join('')\<close>.\<close>

definition urlLength :: "string \<Rightarrow> nat" where
  "urlLength body = length (concat (url_matches body))"

text \<open>
  The share of the links in the body is a quotient of two lengths, compared with \<open>0.8\<close>.
  The comparison is written on the exact quotient; for a body of fewer than \<open>2 ^ 50\<close>
  characters it has the outcome of the comparison of the doubles (\<open>link_share_double\<close>).
\<close>

definition hasUsableTextContent :: "RedditPost \<Rightarrow> bool" where
  "hasUsableTextContent p =
     (let txt = trim (title p @ '' '' @ selftext p);
          wordCount = countWords txt
      in if wordCount < 10 then False
         else if selftext p \<noteq> [] \<and> startsWith (trim (selftext p)) ''http''
                 \<and> real (urlLength (selftext p)) / real (length (selftext p)) > 0.8
         then False
         else True)"

definition scorePost :: "(real \<Rightarrow> real) \<Rightarrow> real \<Rightarrow> RedditPost \<Rightarrow> PostScore" where
  "scorePost lg now p =
     (let fullText = title p @ '' '' @ selftext p;
          wordCount = countWords fullText;
          engagement = calculateEngagementScore lg now p;
          textLengthScore = calculateTextLengthScore wordCount;
          contentQualityScore = calculateContentQuality fullText;
          total = js_add (js_add (js_mul engagement (Num weights_engagement))
                                 (js_mul textLengthScore (Num weights_textLength)))
                         (js_mul contentQualityScore (Num weights_quality))
      in \<lparr> post = p, engagementScore = engagement, textLength = wordCount,
           contentQuality = contentQualityScore, totalScore = total \<rparr>)"


text \<open>
  \<open>Array.prototype.sort\<close> with a comparator is a stable sort: \<open>a\<close> stays before \<open>b\<close>
  unless the comparator's value is positive, and a value of \<open>NaN\<close> counts as \<open>+0\<close>.
  \<open>not_after v\<close> reads a comparator value that way. For a consistent comparator the result
  of a stable sort is unique; the model builds it by insertion from the right.
\<close>

fun not_after :: "jsnum \<Rightarrow> bool" where
  "not_after (Num d) = (d \<le> 0)"
| "not_after NegInfinity = True"
| "not_after PosInfinity = False"
| "not_after NaN = True"

fun insert_sorted :: "('a \<Rightarrow> 'a \<Rightarrow> jsnum) \<Rightarrow> 'a \<Rightarrow> 'a list \<Rightarrow> 'a list" where
  "insert_sorted cmp x [] = [x]"
| "insert_sorted cmp x (y # ys) =
     (if not_after (cmp x y) then x # y # ys else y # insert_sorted cmp x ys)"

definition Array_sort :: "('a \<Rightarrow> 'a \<Rightarrow> jsnum) \<Rightarrow> 'a list \<Rightarrow> 'a list" where
  "Array_sort cmp xs = foldr (insert_sorted cmp) xs []"

text \<open>The comparator of \<open>selectBestPost\<close>: \<open>(a, b) => b.totalScore - a.totalScore\<close>.\<close>

definition compareScores :: "PostScore \<Rightarrow> PostScore \<Rightarrow> jsnum" where
  "compareScores a b = js_sub (totalScore b) (totalScore a)"

text \<open>
  \<open>usablePosts.map(post => this.scorePost(post))\<close>. Every call of \<open>scorePost\<close> reads the
  clock once; \<open>clock k\<close> is the reading taken for the \<open>k\<close>-th usable post.
\<close>

fun score_from ::
  "(real \<Rightarrow> real) \<Rightarrow> (nat \<Rightarrow> real) \<Rightarrow> nat \<Rightarrow> RedditPost list \<Rightarrow> PostScore list" where
  "score_from lg clock k [] = []"
| "score_from lg clock k (p # ps) = scorePost lg (clock k) p # score_from lg clock (Suc k) ps"

definition selectBestPost ::
  "(real \<Rightarrow> real) \<Rightarrow> (nat \<Rightarrow> real) \<Rightarrow> RedditPost list \<Rightarrow> PostScore option" where
  "selectBestPost lg clock posts =
     (if posts = [] then None
      else
        (let usablePosts = filter hasUsableTextContent posts in
         if usablePosts = [] then None
         else
           (case Array_sort compareScores (score_from lg clock 0 usablePosts) of
              [] \<Rightarrow> None
            | best # others \<Rightarrow> Some best)))"

text \<open>
  The post of the analyzer's tests (\<open>createMockPost\<close>), created one hour before \<open>now\<close>.
\<close>

definition createMockPost :: "real \<Rightarrow> RedditPost" where
  "createMockPost now =
     \<lparr> post_id = ''test-id'', title = ''Test Post Title'', author = ''testuser'',
       score = 100, num_comments = 50, created_utc = now - 3600,
       selftext = ''This is a test post with some content that should be analyzed by the algorithm.'',
       permalink = ''/r/test/comments/test'', subreddit = ''test'' \<rparr>"

text \<open>A post with a title of ten words and the given body, and a clock that stands still.\<close>

definition linkPost :: "string \<Rightarrow> RedditPost" where
  "linkPost body = createMockPost 0
     \<lparr>title := ''Ten words are in this title so it counts enough'', selftext := body\<rparr>"

definition fixed_clock :: "real \<Rightarrow> nat \<Rightarrow> real" where
  "fixed_clock t = (\<lambda>k. t)"

text \<open>
  A post without votes or comments, one hour old at 3600, with the given identifier and
  body; and an engine whose logarithm is the double nearest to the exact one.
\<close>

definition quietPost :: "string \<Rightarrow> string \<Rightarrow> RedditPost" where
  "quietPost pid body =
     createMockPost 3600\<lparr>post_id := pid, score := 0, num_comments := 0, selftext := body\<rparr>"

definition nearest_log10 :: "real \<Rightarrow> real" where
  "nearest_log10 x = double (log 10 x)"


text \<open>
  The text length score as the specification words it, on the reals. A linear ramp from
  the value \<open>a\<close> at \<open>lo\<close> to the value \<open>b\<close> at \<open>hi\<close>:
\<close>

definition ramp :: "real \<Rightarrow> real \<Rightarrow> real \<Rightarrow> real \<Rightarrow> real \<Rightarrow> real" where
  "ramp lo hi a b w = a + (w - lo) / (hi - lo) * (b - a)"

definition textLengthScore_spec :: "nat \<Rightarrow> real" where
  "textLengthScore_spec w =
     (if w = 0 then 0
      else if w < 50 then (real w / 50) * 0.3
      else if w < 100 then ramp 50 100 0.3 1.0 (real w)
      else if w \<le> 500 then 1.0
      else if w \<le> 800 then ramp 500 800 1.0 0.5 (real w)
      else 0.3)"

text \<open>
  The same function with its formulas evaluated as a machine evaluates them: every
  literal is a double and every operation rounds.
\<close>

definition ramp_double :: "real \<Rightarrow> real \<Rightarrow> real \<Rightarrow> real \<Rightarrow> real \<Rightarrow> real" where
  "ramp_double lo hi a b w =
     double (a + double (double (double (w - lo) / double (hi - lo)) * double (b - a)))"

definition textLengthScore_double :: "nat \<Rightarrow> real" where
  "textLengthScore_double w =
     (if w = 0 then 0
      else if w < 50 then double (double (real w / 50) * double 0.3)
      else if w < 100 then ramp_double 50 100 (double 0.3) 1 (real w)
      else if w \<le> 500 then 1
      else if w \<le> 800 then ramp_double 500 800 1 (double 0.5) (real w)
      else double 0.3)"


text \<open>
  Three posts of one batch: two without votes or comments, the second with a body of
  three sentences, and between them the post of the tests with a score of -5.
\<close>

definition lowPost :: RedditPost where
  "lowPost = quietPost ''low''
     ''This is a test post with some content that should be analyzed by the algorithm.''"

definition nanPost :: RedditPost where
  "nanPost = createMockPost 3600\<lparr>post_id := ''nan'', score := -5, num_comments := 0\<rparr>"

definition highPost :: RedditPost where
  "highPost = quietPost ''high''
     ''This is a test post. It has some content. It should be analyzed by the algorithm.''"


subsection \<open>Rounding to doubles\<close>

lemma round_to_even_int [simp]: "round_to_even (of_int k) = k"
  by (simp add: round_to_even_def)

lemma round_to_even_floor: "\<lfloor>y\<rfloor> \<le> round_to_even y \<and> round_to_even y \<le> \<lfloor>y\<rfloor> + 1"
  by (simp add: round_to_even_def Let_def)

lemma round_to_even_mono: "a \<le> b \<Longrightarrow> round_to_even a \<le> round_to_even b"
proof -
  assume ab: "a \<le> b"
  then have fl: "\<lfloor>a\<rfloor> \<le> \<lfloor>b\<rfloor>" by (rule floor_mono)
  show ?thesis
  proof (cases "\<lfloor>a\<rfloor> = \<lfloor>b\<rfloor>")
    case True
    then have "a - of_int \<lfloor>a\<rfloor> \<le> b - of_int \<lfloor>b\<rfloor>" using ab by simp
    then show ?thesis using True by (auto simp: round_to_even_def Let_def)
  next
    case False
    then have "\<lfloor>a\<rfloor> + 1 \<le> \<lfloor>b\<rfloor>" using fl by simp
    then show ?thesis using round_to_even_floor[of a] round_to_even_floor[of b] by linarith
  qed
qed

lemma double_eqI:
  assumes "0 < x" and "2 powr of_int e \<le> x" and "x < 2 powr (of_int e + 1)"
  shows "double x = of_int (round_to_even (x / 2 powr (of_int e - 52))) * 2 powr (of_int e - 52)"
proof -
  have "of_int e \<le> log 2 x" using assms by (simp add: le_log_iff)
  moreover have "log 2 x < of_int e + 1" using assms by (simp add: log_less_iff)
  ultimately have "\<lfloor>log 2 x\<rfloor> = e" by linarith
  then show ?thesis using assms(1) by (simp add: double_def Let_def)
qed

lemma double_range:
  assumes "0 < x" and "2 powr of_int e \<le> x" and "x < 2 powr (of_int e + 1)"
  shows "2 powr of_int e \<le> double x \<and> double x \<le> 2 powr (of_int e + 1)"
proof -
  let ?u = "2 powr (of_int e - 52) :: real"
  define lo :: int where "lo = 2 ^ 52"
  define hi :: int where "hi = 2 ^ 53"
  have u: "0 < ?u" by simp
  have lo: "2 powr of_int e = of_int lo * ?u"
    by (simp add: powr_diff lo_def)
  have hi: "2 powr (of_int e + 1) = of_int hi * ?u"
    by (simp add: powr_diff powr_add hi_def)
  have "of_int lo \<le> x / ?u" using assms(2) lo u by (simp add: pos_le_divide_eq)
  from round_to_even_mono[OF this] have a: "lo \<le> round_to_even (x / ?u)" by simp
  have "x / ?u \<le> of_int hi" using assms(3) hi u by (simp add: pos_divide_le_eq)
  from round_to_even_mono[OF this] have b: "round_to_even (x / ?u) \<le> hi" by simp
  have "of_int lo * ?u \<le> of_int (round_to_even (x / ?u)) * ?u"
    using a u by (intro mult_right_mono) simp_all
  moreover have "of_int (round_to_even (x / ?u)) * ?u \<le> of_int hi * ?u"
    using b u by (intro mult_right_mono) simp_all
  ultimately show ?thesis
    unfolding double_eqI[OF assms] lo hi by simp
qed

lemma exponent_exists:
  assumes "0 < (x::real)"
  shows "2 powr of_int \<lfloor>log 2 x\<rfloor> \<le> x \<and> x < 2 powr (of_int \<lfloor>log 2 x\<rfloor> + 1)"
proof -
  have "of_int \<lfloor>log 2 x\<rfloor> \<le> log 2 x" by simp
  then have a: "2 powr of_int \<lfloor>log 2 x\<rfloor> \<le> x"
    using le_log_iff[of 2 x "of_int \<lfloor>log 2 x\<rfloor>"] assms by simp
  have "log 2 x < of_int \<lfloor>log 2 x\<rfloor> + 1" by linarith
  then have "x < 2 powr (of_int \<lfloor>log 2 x\<rfloor> + 1)"
    using log_less_iff[of 2 x "of_int \<lfloor>log 2 x\<rfloor> + 1"] assms by simp
  then show ?thesis using a by simp
qed

lemma double_mono_pos:
  assumes "0 < x" and "x \<le> y"
  shows "double x \<le> double y"
proof -
  have y: "0 < y" using assms by simp
  define ex where "ex = \<lfloor>log 2 x\<rfloor>"
  define ey where "ey = \<lfloor>log 2 y\<rfloor>"
  have rx: "2 powr of_int ex \<le> x" "x < 2 powr (of_int ex + 1)"
    using exponent_exists[OF assms(1)] by (simp_all add: ex_def)
  have ry: "2 powr of_int ey \<le> y" "y < 2 powr (of_int ey + 1)"
    using exponent_exists[OF y] by (simp_all add: ey_def)
  have "log 2 x \<le> log 2 y" using assms by simp
  then have le: "ex \<le> ey" unfolding ex_def ey_def by (rule floor_mono)
  show ?thesis
  proof (cases "ex = ey")
    case True
    let ?u = "2 powr (of_int ey - 52) :: real"
    have u: "0 < ?u" by simp
    have "x / ?u \<le> y / ?u" using assms(2) u by (simp add: divide_right_mono)
    from round_to_even_mono[OF this]
    have "of_int (round_to_even (x / ?u)) * ?u \<le> of_int (round_to_even (y / ?u)) * ?u"
      using u by (intro mult_right_mono) simp_all
    then show ?thesis
      using double_eqI[OF assms(1) rx] double_eqI[OF y ry] True by simp
  next
    case False
    then have "ex + 1 \<le> ey" using le by simp
    then have "(2::real) powr (of_int ex + 1) \<le> 2 powr of_int ey"
      by (simp add: powr_mono flip: of_int_le_iff)
    then show ?thesis
      using double_range[OF assms(1) rx] double_range[OF y ry] by linarith
  qed
qed

lemma double_zero [simp]: "double 0 = 0"
  by (simp add: double_def)

lemma double_pos: "0 < x \<Longrightarrow> 0 < double x"
proof -
  assume x: "0 < x"
  have r: "2 powr of_int \<lfloor>log 2 x\<rfloor> \<le> x" "x < 2 powr (of_int \<lfloor>log 2 x\<rfloor> + 1)"
    using exponent_exists[OF x] by simp_all
  from double_range[OF x r] have "2 powr of_int \<lfloor>log 2 x\<rfloor> \<le> double x" by simp
  moreover have "(0::real) < 2 powr of_int \<lfloor>log 2 x\<rfloor>" by simp
  ultimately show ?thesis by linarith
qed

lemma double_mono: "0 \<le> x \<Longrightarrow> x \<le> y \<Longrightarrow> double x \<le> double y"
  using double_mono_pos[of x y] double_pos[of y]
  by (cases "x = 0") (cases "y = 0", auto simp: less_eq_real_def)

lemma round_to_even_minus: "round_to_even (- y) = - round_to_even y"
proof (cases "y = of_int \<lfloor>y\<rfloor>")
  case True
  then obtain k :: int where "y = of_int k" by blast
  then have "round_to_even y = k" "round_to_even (- y) = - k"
    using round_to_even_int[of k] round_to_even_int[of "- k"] by simp_all
  then show ?thesis by simp
next
  case False
  then have fl: "\<lfloor>- y\<rfloor> = - \<lfloor>y\<rfloor> - 1"
    by (simp add: floor_minus ceiling_altdef)
  show ?thesis
    unfolding round_to_even_def Let_def fl by (auto simp: field_simps)
qed

lemma double_minus: "double (- x) = - double x"
  by (simp add: double_def Let_def round_to_even_minus)

lemmas double_eval = powr_minus round_to_even_def Let_def


lemma double_neg: "x < 0 \<Longrightarrow> double x < 0"
  using double_pos[of "- x"] by (simp add: double_minus)

lemma double_le_zero_iff: "double x \<le> 0 \<longleftrightarrow> x \<le> 0"
proof (cases "x \<le> 0")
  case True
  then show ?thesis using double_neg[of x] by (cases "x = 0") auto
next
  case False
  then show ?thesis using double_pos[of x] by auto
qed

lemma double_mono_all: "x \<le> y \<Longrightarrow> double x \<le> double y"
proof -
  assume xy: "x \<le> y"
  show ?thesis
  proof (cases "0 \<le> x")
    case True
    then show ?thesis using xy by (rule double_mono)
  next
    case False
    then have x: "x < 0" by simp
    show ?thesis
    proof (cases "0 \<le> y")
      case True
      then have "0 \<le> double y" using double_mono[of 0 y] by simp
      then show ?thesis using double_neg[OF x] by simp
    next
      case False
      then have "0 \<le> - y" "- y \<le> - x" using xy by simp_all
      from double_mono[OF this] show ?thesis by (simp add: double_minus)
    qed
  qed
qed

lemma double_exact_pos:
  assumes "x = of_int m * 2 powr of_int k" and "0 < m" and "m < 2 ^ 53"
  shows "double x = x"
proof -
  have x: "0 < x" using assms by simp
  define e where "e = \<lfloor>log 2 x\<rfloor>"
  have r: "2 powr of_int e \<le> x" "x < 2 powr (of_int e + 1)"
    using exponent_exists[OF x] by (simp_all add: e_def)
  have "of_int m < (2::real) ^ 53" using assms(3) by (metis of_int_less_iff of_int_numeral of_int_power)
  then have "x < 2 ^ 53 * 2 powr of_int k" using assms(1) by simp
  also have "\<dots> = 2 powr (53 + of_int k)" by (simp add: powr_add)
  finally have "x < (2::real) powr (53 + of_int k)" .
  then have "2 powr of_int e < (2::real) powr (53 + of_int k)" using r(1) by linarith
  then have "of_int e < 53 + (of_int k :: real)" by simp
  then have ek: "e < 53 + k" by linarith
  define n where "n = nat (k - e + 52)"
  have n: "int n = k - e + 52" using ek by (simp add: n_def)
  have "x / 2 powr (of_int e - 52) = of_int m * 2 powr (of_int k - (of_int e - 52))"
    using assms(1) by (simp add: powr_diff)
  also have "of_int k - (of_int e - 52) = (of_int (int n) :: real)" using n by simp
  also have "(2::real) powr of_int (int n) = 2 ^ n" by (simp add: powr_realpow)
  finally have q: "x / 2 powr (of_int e - 52) = of_int (m * 2 ^ n)" by simp
  have "double x = of_int (m * 2 ^ n) * 2 powr (of_int e - 52)"
    unfolding double_eqI[OF x r] q by (simp only: round_to_even_int)
  also have "\<dots> = x / 2 powr (of_int e - 52) * 2 powr (of_int e - 52)" by (simp only: q)
  also have "\<dots> = x" by simp
  finally show ?thesis .
qed

lemma double_exact:
  assumes "x = of_int m * 2 powr of_int k" and "\<bar>m\<bar> < 2 ^ 53"
  shows "double x = x"
proof -
  consider "m = 0" | "0 < m" | "m < 0" by linarith
  then show ?thesis
  proof cases
    case 1
    then show ?thesis using assms by simp
  next
    case 2
    then show ?thesis using assms double_exact_pos[of x m k] by simp
  next
    case 3
    then have "double (- x) = - x"
      using assms double_exact_pos[of "- x" "- m" k] by simp
    then show ?thesis by (simp add: double_minus)
  qed
qed

lemma double_of_int: "\<bar>k\<bar> < 2 ^ 53 \<Longrightarrow> double (of_int k) = of_int k"
  using double_exact[of "of_int k" k 0] by simp

lemma double_idem: "double (double x) = double x"
proof -
  have pos: "double (double y) = double y" if y: "0 < y" for y
  proof -
    define e where "e = \<lfloor>log 2 y\<rfloor>"
    have r: "2 powr of_int e \<le> y" "y < 2 powr (of_int e + 1)"
      using exponent_exists[OF y] by (simp_all add: e_def)
    define m where "m = round_to_even (y / 2 powr (of_int e - 52))"
    have d: "double y = of_int m * 2 powr of_int (e - 52)"
      using double_eqI[OF y r] by (simp add: m_def)
    have "double y \<le> 2 powr (of_int e + 1)" using double_range[OF y r] by simp
    also have "\<dots> = 2 ^ 53 * 2 powr of_int (e - 52)" by (simp add: powr_diff powr_add)
    finally have "of_int m \<le> (2::real) ^ 53" using d by simp
    then have m53: "m \<le> 2 ^ 53" by (metis of_int_le_iff of_int_numeral of_int_power)
    have "0 < double y" using double_pos[OF y] .
    then have m0: "0 < m" using d by (simp add: zero_less_mult_iff)
    show ?thesis
    proof (cases "m = 2 ^ 53")
      case True
      then have "double y = of_int (2 ^ 52) * 2 powr of_int (e - 51)"
        using d by (simp add: powr_diff)
      from double_exact[OF this] show ?thesis by simp
    next
      case False
      then have "\<bar>m\<bar> < 2 ^ 53" using m53 m0 by simp
      from double_exact[OF d this] show ?thesis .
    qed
  qed
  consider "x = 0" | "0 < x" | "x < 0" by linarith
  then show ?thesis
  proof cases
    case 1
    then show ?thesis by simp
  next
    case 2
    then show ?thesis by (rule pos)
  next
    case 3
    then have "double (double (- x)) = double (- x)" using pos[of "- x"] by simp
    then show ?thesis by (simp add: double_minus)
  qed
qed

lemma round_to_even_error: "\<bar>of_int (round_to_even y) - y\<bar> \<le> 1 / 2"
  unfolding round_to_even_def Let_def by (auto simp: abs_if) linarith+

lemma double_error:
  assumes "0 < x" and "2 powr of_int e \<le> x" and "x < 2 powr (of_int e + 1)"
  shows "\<bar>double x - x\<bar> \<le> 2 powr (of_int e - 53)"
proof -
  let ?u = "2 powr (of_int e - 52) :: real"
  have u: "0 < ?u" by simp
  have "double x - x = (of_int (round_to_even (x / ?u)) - x / ?u) * ?u"
    unfolding double_eqI[OF assms] by (simp add: algebra_simps)
  then have "\<bar>double x - x\<bar> = \<bar>of_int (round_to_even (x / ?u)) - x / ?u\<bar> * ?u"
    using u by (simp add: abs_mult)
  also have "\<dots> \<le> 1 / 2 * ?u"
    using round_to_even_error[of "x / ?u"] u by (intro mult_right_mono) simp_all
  also have "\<dots> = 2 powr (of_int e - 53)" by (simp add: powr_diff)
  finally show ?thesis .
qed

lemma double_unit:
  assumes "0 \<le> x" and "x \<le> 1"
  shows "0 \<le> double x" and "double x \<le> 1"
    and "double x - x \<le> 1 / 18014398509481984" and "x - double x \<le> 1 / 18014398509481984"
proof -
  have one: "double 1 = 1" using double_of_int[of 1] by simp
  show "0 \<le> double x" using double_mono[of 0 x] assms by simp
  show "double x \<le> 1" using double_mono[of x 1] assms one by simp
  have c: "\<bar>double x - x\<bar> \<le> 1 / 2 ^ 54"
  proof (cases "x = 0 \<or> x = 1")
    case True
    then show ?thesis using one by auto
  next
    case False
    then have x: "0 < x" "x < 1" using assms by simp_all
    define e where "e = \<lfloor>log 2 x\<rfloor>"
    have r: "2 powr of_int e \<le> x" "x < 2 powr (of_int e + 1)"
      using exponent_exists[OF x(1)] by (simp_all add: e_def)
    have "log 2 x < 0" using x by simp
    then have "e \<le> - 1" unfolding e_def by linarith
    then have "(2::real) powr (of_int e - 53) \<le> 2 powr (- 54)"
      by (intro powr_mono) simp_all
    also have "\<dots> = 1 / 2 ^ 54" by (simp add: powr_minus_divide)
    finally show ?thesis using double_error[OF x(1) r] by linarith
  qed
  then have "\<bar>double x - x\<bar> \<le> 1 / 18014398509481984" by simp
  then show "double x - x \<le> 1 / 18014398509481984" "x - double x \<le> 1 / 18014398509481984"
    by linarith+
qed

text \<open>
  Evaluation. In the binade of \<open>x\<close> the spacing is known, and \<open>double x\<close> is a rounding to
  an integer; the instances below cover the numbers of the examples.
\<close>

lemma double_frac:
  assumes "1 / 2 ^ n \<le> x" and "x < 2 / 2 ^ n"
  shows "double x = of_int (round_to_even (x * 2 ^ (52 + n))) / 2 ^ (52 + n)"
proof -
  have p: "(2::real) powr of_int (- int n) = 1 / 2 ^ n"
    by (simp add: powr_minus_divide powr_realpow)
  have x: "0 < x" using assms(1) by (rule less_le_trans[rotated]) simp
  have a: "2 powr of_int (- int n) \<le> x" using assms(1) p by simp
  have "(2::real) powr (of_int (- int n) + 1) = 2 powr of_int (- int n) * 2"
    by (simp only: powr_add powr_one_eq_one) simp
  then have b: "x < 2 powr (of_int (- int n) + 1)" using assms(2) p by simp
  have u: "(2::real) powr (of_int (- int n) - 52) = 1 / 2 ^ (52 + n)"
    using p by (simp add: powr_diff power_add)
  show ?thesis unfolding double_eqI[OF x a b] u by simp
qed

lemma double_whole:
  assumes "2 ^ n \<le> x" and "x < 2 * 2 ^ n" and "n \<le> 52"
  shows "double x = of_int (round_to_even (x * 2 ^ (52 - n))) / 2 ^ (52 - n)"
proof -
  have p: "(2::real) powr of_int (int n) = 2 ^ n" by (simp add: powr_realpow)
  have x: "0 < x" using assms(1) by (rule less_le_trans[rotated]) simp
  have a: "2 powr of_int (int n) \<le> x" using assms(1) p by simp
  have b: "x < 2 powr (of_int (int n) + 1)" using assms(2) p by (simp add: powr_add)
  have "(2::real) powr (of_int (int n) - 52) = 2 powr (- of_int (int (52 - n)))"
    using assms(3) by (simp add: of_nat_diff)
  also have "\<dots> = 1 / 2 ^ (52 - n)" by (simp add: powr_minus_divide powr_realpow)
  finally have u: "(2::real) powr (of_int (int n) - 52) = 1 / 2 ^ (52 - n)" .
  show ?thesis unfolding double_eqI[OF x a b] u by simp
qed

lemma double_numeral: "\<bar>numeral k :: int\<bar> < 2 ^ 53 \<Longrightarrow> double (numeral k) = numeral k"
  using double_of_int[of "numeral k"] by simp

lemma double_one: "double 1 = 1"
  using double_of_int[of 1] by simp

lemmas double_at =
  double_frac[where n = 1] double_frac[where n = 2] double_frac[where n = 3]
  double_frac[where n = 4] double_frac[where n = 5] double_frac[where n = 6]
  double_frac[where n = 7] double_frac[where n = 8] double_frac[where n = 9]
  double_whole[where n = 0] double_whole[where n = 1] double_whole[where n = 2]
  double_whole[where n = 3] double_whole[where n = 4] double_whole[where n = 5]
  double_whole[where n = 6] double_whole[where n = 7]
  double_numeral double_one double_minus round_to_even_def Let_def

subsection \<open>The text length score\<close>

lemma calculateTextLengthScore_double:
  "calculateTextLengthScore w = Num (textLengthScore_double w)"
proof -
  have a: "double (1 - double 0.3) = double 0.7" by (simp add: double_at)
  have b: "double (1 / 2) = 1 / 2" by (simp add: double_at)
  show ?thesis
    by (simp add: calculateTextLengthScore_def textLengthScore_double_def ramp_double_def
        textLength_min_def textLength_ideal_min_def textLength_ideal_max_def
        textLength_max_def Let_def js_sub_def a b double_numeral double_one double_minus)
qed

lemma textLengthScore_double_bounds:
  "0 \<le> textLengthScore_double w \<and> textLengthScore_double w \<le> 1
   \<and> \<bar>textLengthScore_double w - textLengthScore_spec w\<bar> \<le> 1 / 2 ^ 52"
proof -
  have c3: "double 0.3 = 5404319552844595 / 18014398509481984" by (simp add: double_at)
  have c7: "double 0.7 = 3152519739159347 / 4503599627370496" by (simp add: double_at)
  have n73: "double (1 - double 0.3) = double 0.7" by (simp add: double_at)
  have c5: "double (1 / 2) = 1 / 2" by (simp add: double_at)
  consider (zero) "w = 0" | (short) "0 < w" "w < 50" | (up) "50 \<le> w" "w < 100"
    | (ideal) "100 \<le> w" "w \<le> 500" | (down) "500 < w" "w \<le> 800" | (long) "800 < w"
    by linarith
  then show ?thesis
  proof cases
    case zero
    then show ?thesis by (simp add: textLengthScore_double_def textLengthScore_spec_def)
  next
    case short
    define t where "t = real w / 50"
    have t: "0 \<le> t" "t \<le> 1" using short by (simp_all add: t_def)
    note a = double_unit[OF t]
    define p where "p = double t * double 0.3"
    have p: "0 \<le> p" "p \<le> 1" using a unfolding p_def c3 by linarith+
    note b = double_unit[OF p]
    have l: "textLengthScore_double w = double p"
      using short by (simp add: textLengthScore_double_def p_def t_def)
    have r: "textLengthScore_spec w = t * (3 / 10)"
      using short by (simp add: textLengthScore_spec_def t_def)
    have "\<bar>double p - t * (3 / 10)\<bar> \<le> 1 / 4503599627370496"
      using a b t unfolding p_def c3 by linarith
    then show ?thesis unfolding l r using b by simp
  next
    case up
    define t where "t = (real w - 50) / 50"
    have t: "0 \<le> t" "t \<le> 1" using up by (simp_all add: t_def)
    note a = double_unit[OF t]
    define p where "p = double t * double 0.7"
    have p: "0 \<le> p" "p \<le> 1" using a unfolding p_def c7 by linarith+
    note b = double_unit[OF p]
    have "p \<le> 3152519739159347 / 4503599627370496" using a unfolding p_def c7 by linarith
    from double_mono_all[OF this]
    have dp: "double p \<le> 3152519739159347 / 4503599627370496"
      using double_idem[of "0.7"] unfolding c7 by simp
    define s where "s = double 0.3 + double p"
    have s: "0 \<le> s" "s \<le> 1" using b dp unfolding s_def c3 by linarith+
    note c = double_unit[OF s]
    have "\<bar>int w - 50\<bar> < 2 ^ 53" using up by simp
    from double_of_int[OF this] have pos: "double (real w - 50) = real w - 50" by simp
    have l: "textLengthScore_double w = double s"
      using up by (simp add: textLengthScore_double_def ramp_double_def s_def p_def t_def
          pos n73 double_numeral)
    have r: "textLengthScore_spec w = 3 / 10 + t * (7 / 10)"
      using up by (simp add: textLengthScore_spec_def ramp_def t_def)
    have "\<bar>double s - (3 / 10 + t * (7 / 10))\<bar> \<le> 1 / 4503599627370496"
      using a b c t unfolding s_def p_def c3 c7 by linarith
    then show ?thesis unfolding l r using c by simp
  next
    case ideal
    then show ?thesis by (simp add: textLengthScore_double_def textLengthScore_spec_def)
  next
    case down
    define t where "t = (real w - 500) / 300"
    have t: "0 \<le> t" "t \<le> 1" using down by (simp_all add: t_def)
    note a = double_unit[OF t]
    define p where "p = double t * (1 / 2)"
    have p: "0 \<le> p" "p \<le> 1" using a unfolding p_def by linarith+
    note b = double_unit[OF p]
    define s where "s = 1 - double p"
    have s: "0 \<le> s" "s \<le> 1" using b unfolding s_def by linarith+
    note c = double_unit[OF s]
    have "\<bar>int w - 500\<bar> < 2 ^ 53" using down by simp
    from double_of_int[OF this] have pos: "double (real w - 500) = real w - 500" by simp
    have l: "textLengthScore_double w = double s"
      using down by (simp add: textLengthScore_double_def ramp_double_def s_def p_def t_def
          pos c5 double_numeral double_minus)
    have r: "textLengthScore_spec w = 1 - t * (1 / 2)"
      using down by (simp add: textLengthScore_spec_def ramp_def t_def)
    have "\<bar>double s - (1 - t * (1 / 2))\<bar> \<le> 1 / 4503599627370496"
      using a b c t unfolding s_def p_def by linarith
    then show ?thesis unfolding l r using c by simp
  next
    case long
    then show ?thesis
      by (simp add: textLengthScore_double_def textLengthScore_spec_def c3)
  qed
qed

text \<open>
  Claim C6. For every word count \<open>w\<close> the value of \<open>calculateTextLengthScore\<close> is the
  piecewise function of the specification, evaluated as a machine evaluates it: 0 at 0,
  \<open>(w/50) * 0.3\<close> below 50, the ramp from 0.3 to 1.0 on 50 to 100, 1.0 on 100 to 500, the
  ramp from 1.0 to 0.5 up to 800 and 0.3 beyond, every literal a double and every
  operation rounded. That value lies within \<open>2 ^ -52\<close> of the value of the same function on
  the reals, and need not be the double nearest to it: at 75 words the score is
  0.6499999999999999, one step below the double of 0.65. At exactly 50 words the score is
  the double 0.3, and the formula of the branch below 50 and the ramp above it both have
  that value there. The ramps take the stated values at their ends, in doubles and on the
  reals.
\<close>

theorem calculateTextLengthScore_piecewise:
  "calculateTextLengthScore w = Num (textLengthScore_double w)
   \<and> \<bar>textLengthScore_double w - textLengthScore_spec w\<bar> \<le> 1 / 2 ^ 52
   \<and> calculateTextLengthScore 50 = Num (double 0.3)
   \<and> double (double (50 / 50) * double 0.3) = double 0.3
   \<and> ramp_double 50 100 (double 0.3) 1 50 = double 0.3
   \<and> ramp_double 50 100 (double 0.3) 1 100 = 1
   \<and> ramp_double 500 800 1 (double 0.5) 500 = 1
   \<and> ramp_double 500 800 1 (double 0.5) 800 = double 0.5
   \<and> calculateTextLengthScore 75 = Num (5854679515581644 / 9007199254740992)
   \<and> double 0.65 = 5854679515581645 / 9007199254740992
   \<and> (real 50 / 50) * 0.3 = ramp 50 100 0.3 1.0 50
   \<and> ramp 50 100 0.3 1.0 100 = 1.0
   \<and> ramp 500 800 1.0 0.5 500 = 1.0
   \<and> ramp 500 800 1.0 0.5 800 = 0.5"
proof -
  have "calculateTextLengthScore 50 = Num (double 0.3)"
    "calculateTextLengthScore 75 = Num (5854679515581644 / 9007199254740992)"
    by (simp_all add: calculateTextLengthScore_def textLength_min_def textLength_ideal_min_def
        textLength_ideal_max_def textLength_max_def Let_def js_sub_def double_at)
  moreover have "double (double (50 / 50) * double 0.3) = double 0.3"
    "ramp_double 50 100 (double 0.3) 1 50 = double 0.3"
    "ramp_double 50 100 (double 0.3) 1 100 = 1"
    "ramp_double 500 800 1 (double 0.5) 500 = 1"
    "ramp_double 500 800 1 (double 0.5) 800 = double 0.5"
    "double 0.65 = 5854679515581645 / 9007199254740992"
    by (simp_all add: ramp_double_def double_at)
  moreover have "(real 50 / 50) * 0.3 = ramp 50 100 0.3 1.0 50"
    "ramp 50 100 0.3 1.0 100 = 1.0" "ramp 500 800 1.0 0.5 500 = 1.0"
    "ramp 500 800 1.0 0.5 800 = 0.5"
    by (simp_all add: ramp_def)
  ultimately show ?thesis
    using calculateTextLengthScore_double[of w] textLengthScore_double_bounds[of w] by simp
qed


subsection \<open>The range of the scores\<close>

lemma calculateTextLengthScore_range:
  "\<exists>v. calculateTextLengthScore w = Num v \<and> 0 \<le> v \<and> v \<le> 1"
  using calculateTextLengthScore_double[of w] textLengthScore_double_bounds[of w] by simp

lemma calculateContentQuality_range:
  "\<exists>v. calculateContentQuality txt = Num v \<and> 0 \<le> v \<and> v \<le> 1"
  by (simp add: calculateContentQuality_def Let_def js_sub_def)

text \<open>
  The bonus for paragraphs followed by the penalty for capitals does not give back the
  base score: \<open>0.5 + 0.2 - 0.2\<close> is 0.49999999999999994.
\<close>

lemma contentQuality_rounding:
  "js_sub (js_add (Num (double 0.5)) (Num (double 0.2))) (Num (double 0.2))
   = Num (9007199254740991 / 18014398509481984)"
  by (simp add: js_sub_def double_at)

lemma getPostAgeHours_pos: "\<exists>a. getPostAgeHours now created = Num a \<and> 0 < a"
proof -
  have "(0::real) < double 0.1" by (simp add: double_at)
  then show ?thesis
    by (simp add: getPostAgeHours_def Let_def js_sub_def less_max_iff_disj)
qed

text \<open>
  With counts that are not negative, more exactly as soon as the weighted count
  \<open>score + num_comments * 0.3\<close> as the machine computes it is not negative, the engagement
  score is a number, at most 1, whatever the creation time and whatever the engine; it
  is at least 0 for an engine whose logarithm is not negative from 1 on.
\<close>

lemma calculateEngagementScore_range:
  assumes "0 \<le> score p + double (num_comments p * double 0.3)"
  shows "\<exists>e. calculateEngagementScore lg now p = Num e \<and> e \<le> 1
           \<and> ((\<forall>x. 1 \<le> x \<longrightarrow> 0 \<le> lg x) \<longrightarrow> 0 \<le> e)"
proof -
  obtain a where a: "getPostAgeHours now (created_utc p) = Num a" "0 < a"
    using getPostAgeHours_pos by blast
  define c where "c = double (score p + double (num_comments p * double 0.3))"
  have c: "0 \<le> c" unfolding c_def using double_mono_all[OF assms] by simp
  define r where "r = double (double (c / a) + 1)"
  have "0 \<le> c / a" using c a by simp
  from double_mono_all[OF this] have "0 \<le> double (c / a)" by simp
  then have "1 \<le> double (c / a) + 1" by simp
  from double_mono_all[OF this] have r: "1 \<le> r" by (simp add: r_def double_one)
  define l where "l = (if r = 1 then 0 else lg r)"
  have lg: "Math_log10 lg (Num r) = Num l" using r by (simp add: l_def)
  have e: "calculateEngagementScore lg now p = Num (min (double (l / 3)) 1)"
    using a lg by (simp add: calculateEngagementScore_def Let_def c_def r_def)
  have "0 \<le> double (l / 3)" if "\<forall>x. 1 \<le> x \<longrightarrow> 0 \<le> lg x"
  proof -
    have "0 \<le> l" using that r by (simp add: l_def)
    then have "0 \<le> l / 3" by simp
    from double_mono_all[OF this] show ?thesis by simp
  qed
  then show ?thesis using e by simp
qed

lemma totalScore_bounds:
  assumes "e \<le> 1" and "0 \<le> t" and "t \<le> 1" and "0 \<le> q" and "q \<le> 1"
  shows "double (double (double (e * double 0.4) + double (t * double 0.3))
                 + double (q * double 0.3)) \<le> 1"
    and "0 \<le> e \<Longrightarrow> 0 \<le> double (double (double (e * double 0.4) + double (t * double 0.3))
                 + double (q * double 0.3))"
proof -
  have c3: "double 0.3 = 5404319552844595 / 18014398509481984" by (simp add: double_at)
  have c4: "double 0.4 = 3602879701896397 / 9007199254740992" by (simp add: double_at)
  define A where "A = double (e * double 0.4)"
  define B where "B = double (t * double 0.3)"
  define C where "C = double (q * double 0.3)"
  have "e * double 0.4 \<le> 3602879701896397 / 9007199254740992" using assms unfolding c4 by linarith
  from double_mono_all[OF this] have A: "A \<le> 3602879701896397 / 9007199254740992"
    by (simp add: A_def double_at)
  have "t * double 0.3 \<le> 5404319552844595 / 18014398509481984" using assms unfolding c3 by linarith
  from double_mono_all[OF this] have B: "B \<le> 5404319552844595 / 18014398509481984"
    by (simp add: B_def double_at)
  have "q * double 0.3 \<le> 5404319552844595 / 18014398509481984" using assms unfolding c3 by linarith
  from double_mono_all[OF this] have C: "C \<le> 5404319552844595 / 18014398509481984"
    by (simp add: C_def double_at)
  have "A + B \<le> 3602879701896397 / 9007199254740992 + 5404319552844595 / 18014398509481984"
    using A B by linarith
  from double_mono_all[OF this] have AB: "double (A + B) \<le> 3152519739159347 / 4503599627370496"
    by (simp add: double_at)
  have "double (A + B) + C \<le> 3152519739159347 / 4503599627370496 + 5404319552844595 / 18014398509481984"
    using AB C by linarith
  from double_mono_all[OF this] have "double (double (A + B) + C) \<le> 1"
    by (simp add: double_at)
  then show "double (double (double (e * double 0.4) + double (t * double 0.3))
                 + double (q * double 0.3)) \<le> 1"
    by (simp add: A_def B_def C_def)
  assume e: "0 \<le> e"
  have "0 \<le> e * double 0.4" using e unfolding c4 by linarith
  from double_mono_all[OF this] have A0: "0 \<le> A" by (simp add: A_def)
  have "0 \<le> t * double 0.3" using assms unfolding c3 by linarith
  from double_mono_all[OF this] have B0: "0 \<le> B" by (simp add: B_def)
  have "0 \<le> q * double 0.3" using assms unfolding c3 by linarith
  from double_mono_all[OF this] have C0: "0 \<le> C" by (simp add: C_def)
  have "0 \<le> A + B" using A0 B0 by simp
  from double_mono_all[OF this] have "0 \<le> double (A + B)" by simp
  then have "0 \<le> double (A + B) + C" using C0 by simp
  from double_mono_all[OF this] have "0 \<le> double (double (A + B) + C)" by simp
  then show "0 \<le> double (double (double (e * double 0.4) + double (t * double 0.3))
                 + double (q * double 0.3))"
    by (simp add: A_def B_def C_def)
qed

lemma scorePost_total:
  assumes "calculateEngagementScore lg now p = Num e"
  shows "\<exists>t q. 0 \<le> t \<and> t \<le> 1 \<and> 0 \<le> q \<and> q \<le> 1
           \<and> totalScore (scorePost lg now p)
               = Num (double (double (double (e * double 0.4) + double (t * double 0.3))
                              + double (q * double 0.3)))"
proof -
  obtain t where t: "calculateTextLengthScore (countWords (title p @ '' '' @ selftext p)) = Num t"
    "0 \<le> t" "t \<le> 1"
    using calculateTextLengthScore_range by blast
  obtain q where q: "calculateContentQuality (title p @ '' '' @ selftext p) = Num q"
    "0 \<le> q" "q \<le> 1"
    using calculateContentQuality_range by blast
  have "totalScore (scorePost lg now p)
      = Num (double (double (double (e * double 0.4) + double (t * double 0.3))
                     + double (q * double 0.3)))"
    using assms t(1) q(1)
    by (simp add: scorePost_def Let_def weights_engagement_def weights_textLength_def
        weights_quality_def)
  then show ?thesis using t q by blast
qed

lemma scorePost_range:
  assumes "0 \<le> score p + double (num_comments p * double 0.3)"
    and "\<forall>x. 1 \<le> x \<longrightarrow> 0 \<le> lg x"
  shows "in_unit_interval (engagementScore (scorePost lg now p))
       \<and> in_unit_interval (contentQuality (scorePost lg now p))
       \<and> in_unit_interval (totalScore (scorePost lg now p))"
proof -
  obtain e where e: "calculateEngagementScore lg now p = Num e" "0 \<le> e" "e \<le> 1"
    using calculateEngagementScore_range[OF assms(1), of lg now] assms(2) by blast
  obtain t q where tq: "0 \<le> t" "t \<le> 1" "0 \<le> q" "q \<le> 1"
    and tot: "totalScore (scorePost lg now p)
               = Num (double (double (double (e * double 0.4) + double (t * double 0.3))
                              + double (q * double 0.3)))"
    using scorePost_total[OF e(1)] by blast
  obtain q' where q': "calculateContentQuality (title p @ '' '' @ selftext p) = Num q'"
    "0 \<le> q'" "q' \<le> 1"
    using calculateContentQuality_range by blast
  show ?thesis
    using e tot q' totalScore_bounds[OF e(3) tq] by (simp add: scorePost_def Let_def)
qed

lemma totalScore_not_NaN:
  assumes "0 \<le> score p + double (num_comments p * double 0.3)"
  shows "totalScore (scorePost lg now p) \<noteq> NaN"
proof -
  obtain e where "calculateEngagementScore lg now p = Num e"
    using calculateEngagementScore_range[OF assms, of lg now] by blast
  from scorePost_total[OF this] show ?thesis by auto
qed

text \<open>
  Claim C4, at inputs with a negative count. The post of the tests with a score of -5
  and no comments, one hour old: the raw engagement is -5, \<open>Math.log10\<close> of -4 is \<open>NaN\<close>,
  and so are the engagement score and the total score. With a score of -1 at ten hours
  the raw engagement is -0.1 and the engagement score is a third of the logarithm of 0.9,
  which lies between 0 and 1 only for an engine whose logarithm of 0.9 is not negative.
  With a score of -1 at one hour the raw engagement is -1, \<open>Math.log10\<close> of 0 is
  \<open>-Infinity\<close>, and so are the engagement score and the total score. None of them lies
  between 0 and 1: \<open>calculateEngagementScore\<close> bounds its result from above with
  \<open>Math.min\<close> and has no lower bound, where \<open>calculateContentQuality\<close> has both.
\<close>

theorem calculateEngagementScore_negative_count:
  "calculateEngagementScore lg 3600 (createMockPost 3600\<lparr>score := -5, num_comments := 0\<rparr>) = NaN
   \<and> totalScore (scorePost lg 3600 (createMockPost 3600\<lparr>score := -5, num_comments := 0\<rparr>)) = NaN
   \<and> \<not> in_unit_interval
         (engagementScore (scorePost lg 3600 (createMockPost 3600\<lparr>score := -5, num_comments := 0\<rparr>)))
   \<and> \<not> in_unit_interval
         (totalScore (scorePost lg 3600 (createMockPost 3600\<lparr>score := -5, num_comments := 0\<rparr>)))
   \<and> calculateEngagementScore lg 36000
         (createMockPost 36000\<lparr>score := -1, num_comments := 0, created_utc := 0\<rparr>)
       = Num (min (double (lg (double 0.9) / 3)) 1)
   \<and> in_unit_interval (calculateEngagementScore lg 36000
         (createMockPost 36000\<lparr>score := -1, num_comments := 0, created_utc := 0\<rparr>))
       = (0 \<le> lg (double 0.9))
   \<and> calculateEngagementScore lg 3600 (createMockPost 3600\<lparr>score := -1, num_comments := 0\<rparr>)
       = NegInfinity
   \<and> totalScore (scorePost lg 3600 (createMockPost 3600\<lparr>score := -1, num_comments := 0\<rparr>))
       = NegInfinity"
proof -
  let ?five = "createMockPost 3600\<lparr>score := -5, num_comments := 0\<rparr>"
  let ?ten = "createMockPost 36000\<lparr>score := -1, num_comments := 0, created_utc := 0\<rparr>"
  let ?one = "createMockPost 3600\<lparr>score := -1, num_comments := 0\<rparr>"
  have five: "calculateEngagementScore lg 3600 ?five = NaN"
    by (simp add: calculateEngagementScore_def getPostAgeHours_def createMockPost_def
        Let_def js_sub_def double_at)
  have ten: "calculateEngagementScore lg 36000 ?ten = Num (min (double (lg (double 0.9) / 3)) 1)"
    by (simp add: calculateEngagementScore_def getPostAgeHours_def createMockPost_def
        Let_def js_sub_def double_at)
  have one: "calculateEngagementScore lg 3600 ?one = NegInfinity"
    by (simp add: calculateEngagementScore_def getPostAgeHours_def createMockPost_def
        Let_def js_sub_def double_at)
  have sign: "(0 \<le> double (lg (double 0.9) / 3)) = (0 \<le> lg (double 0.9))"
    using double_le_zero_iff[of "- (lg (double 0.9) / 3)"] double_neg[of "lg (double 0.9) / 3"]
      double_mono_all[of 0 "lg (double 0.9) / 3"]
    by (auto simp: double_minus not_le)
  obtain t where t: "calculateTextLengthScore
      (countWords (title ?one @ '' '' @ selftext ?one)) = Num t"
    using calculateTextLengthScore_range by blast
  obtain q where q: "calculateContentQuality (title ?one @ '' '' @ selftext ?one) = Num q"
    using calculateContentQuality_range by blast
  have w: "(0::real) < double 0.4" by (simp add: double_at)
  have tot_one: "totalScore (scorePost lg 3600 ?one) = NegInfinity"
    using one t q w by (simp add: scorePost_def Let_def weights_engagement_def)
  have tot_five: "totalScore (scorePost lg 3600 ?five) = NaN"
    using five by (simp add: scorePost_def Let_def)
  have eng_five: "engagementScore (scorePost lg 3600 ?five) = NaN"
    using five by (simp add: scorePost_def Let_def)
  show ?thesis
    unfolding five ten one tot_one tot_five eng_five using sign by simp
qed

theorem calculateEngagementScore_negative_count_witness:
  "nearest_log10 (double 0.9) < 0
   \<and> \<not> in_unit_interval (calculateEngagementScore nearest_log10 36000
          (createMockPost 36000\<lparr>score := -1, num_comments := 0, created_utc := 0\<rparr>))"
proof -
  have v: "double 0.9 = 8106479329266893 / 9007199254740992" by (simp add: double_at)
  have "log 10 (double 0.9) < 0" unfolding v by simp
  then have neg: "nearest_log10 (double 0.9) < 0"
    unfolding nearest_log10_def by (rule double_neg)
  from calculateEngagementScore_negative_count[of nearest_log10]
  have "in_unit_interval (calculateEngagementScore nearest_log10 36000
          (createMockPost 36000\<lparr>score := -1, num_comments := 0, created_utc := 0\<rparr>))
       = (0 \<le> nearest_log10 (double 0.9))"
    by blast
  then show ?thesis using neg by simp
qed


subsection \<open>Selection\<close>

text \<open>
  As long as no value is \<open>NaN\<close>, the comparator orders scores as \<open><=\<close> does, and
  \<open><=\<close> is a total preorder there: a difference rounds to zero or below exactly when it
  is zero or below.
\<close>

lemma not_after_sub: "a \<noteq> NaN \<Longrightarrow> b \<noteq> NaN \<Longrightarrow> not_after (js_sub b a) = js_le b a"
  by (cases a; cases b) (simp_all add: js_sub_def double_le_zero_iff)

lemma js_le_refl: "a \<noteq> NaN \<Longrightarrow> js_le a a"
  by (cases a) simp_all

lemma js_le_trans: "js_le a b \<Longrightarrow> js_le b c \<Longrightarrow> js_le a c"
  by (cases a; cases b; cases c) simp_all

lemma js_lt_le: "js_lt a b \<Longrightarrow> js_le a b"
  by (cases a; cases b) simp_all

lemma js_not_le: "a \<noteq> NaN \<Longrightarrow> b \<noteq> NaN \<Longrightarrow> \<not> js_le b a \<Longrightarrow> js_lt a b"
  by (cases a; cases b) simp_all

lemma js_lt_irrefl: "\<not> js_lt a a"
  by (cases a) simp_all

lemma set_insert_sorted: "set (insert_sorted cmp x ys) = insert x (set ys)"
  by (induction ys) auto

lemma set_Array_sort: "set (Array_sort cmp xs) = set xs"
  by (induction xs) (simp_all add: Array_sort_def set_insert_sorted)

lemma length_insert_sorted: "length (insert_sorted cmp x ys) = Suc (length ys)"
  by (induction ys) auto

lemma length_Array_sort: "length (Array_sort cmp xs) = length xs"
  by (induction xs) (simp_all add: Array_sort_def length_insert_sorted)

lemma Array_sort_Cons: "Array_sort cmp (x # xs) = insert_sorted cmp x (Array_sort cmp xs)"
  by (simp add: Array_sort_def)

lemma Array_sort_head:
  assumes "xs \<noteq> []" and "\<forall>s\<in>set xs. totalScore s \<noteq> NaN"
  shows "\<exists>i best others. Array_sort compareScores xs = best # others \<and> i < length xs
           \<and> best = xs ! i
           \<and> (\<forall>j<length xs. js_le (totalScore (xs ! j)) (totalScore best))
           \<and> (\<forall>j<i. js_lt (totalScore (xs ! j)) (totalScore best))"
  using assms
proof (induction xs rule: list_nonempty_induct)
  case (single x)
  then show ?case by (simp add: Array_sort_def js_le_refl)
next
  case (cons x xs)
  then obtain i best others where
    srt: "Array_sort compareScores xs = best # others" and i: "i < length xs"
    and best: "best = xs ! i"
    and le: "\<forall>j<length xs. js_le (totalScore (xs ! j)) (totalScore best)"
    and lt: "\<forall>j<i. js_lt (totalScore (xs ! j)) (totalScore best)"
    by auto
  have nx: "totalScore x \<noteq> NaN" using cons.prems by simp
  have nb: "totalScore best \<noteq> NaN" using cons.prems best i by simp
  have cmp: "not_after (compareScores x best) = js_le (totalScore best) (totalScore x)"
    by (simp add: compareScores_def not_after_sub nx nb)
  show ?case
  proof (cases "js_le (totalScore best) (totalScore x)")
    case True
    have "Array_sort compareScores (x # xs) = x # best # others"
      using True cmp srt by (simp add: Array_sort_Cons)
    moreover have "\<forall>j<length (x # xs). js_le (totalScore ((x # xs) ! j)) (totalScore x)"
    proof (intro allI impI)
      fix j assume "j < length (x # xs)"
      then show "js_le (totalScore ((x # xs) ! j)) (totalScore x)"
        using le True js_le_trans js_le_refl[OF nx] by (cases j) auto
    qed
    ultimately show ?thesis
      by (intro exI[of _ 0] exI[of _ x] exI[of _ "best # others"]) simp
  next
    case False
    then have xb: "js_lt (totalScore x) (totalScore best)"
      using js_not_le nx nb by blast
    have "Array_sort compareScores (x # xs) = best # insert_sorted compareScores x others"
      using False cmp srt by (simp add: Array_sort_Cons)
    moreover have "\<forall>j<length (x # xs). js_le (totalScore ((x # xs) ! j)) (totalScore best)"
    proof (intro allI impI)
      fix j assume "j < length (x # xs)"
      then show "js_le (totalScore ((x # xs) ! j)) (totalScore best)"
        using le xb js_lt_le by (cases j) auto
    qed
    moreover have "\<forall>j<Suc i. js_lt (totalScore ((x # xs) ! j)) (totalScore best)"
    proof (intro allI impI)
      fix j assume "j < Suc i"
      then show "js_lt (totalScore ((x # xs) ! j)) (totalScore best)"
        using lt xb by (cases j) auto
    qed
    ultimately show ?thesis
      using i best
      by (intro exI[of _ "Suc i"] exI[of _ best] exI[of _ "insert_sorted compareScores x others"]) simp
  qed
qed

lemma length_score_from: "length (score_from lg clock k ps) = length ps"
  by (induction ps arbitrary: k) simp_all

lemma post_scorePost: "post (scorePost lg now p) = p"
  by (simp add: scorePost_def Let_def)

lemma score_from_nth: "i < length ps \<Longrightarrow> score_from lg clock k ps ! i = scorePost lg (clock (k + i)) (ps ! i)"
proof (induction ps arbitrary: k i)
  case Nil
  then show ?case by simp
next
  case (Cons p ps)
  then show ?case by (cases i) simp_all
qed

lemma post_score_from: "post ` set (score_from lg clock k ps) = set ps"
  by (induction ps arbitrary: k) (simp_all add: post_scorePost)


lemma selectBestPost_scored:
  assumes "selectBestPost lg clock posts = Some s"
  shows "s \<in> set (score_from lg clock 0 (filter hasUsableTextContent posts))"
proof -
  have "s \<in> set (Array_sort compareScores (score_from lg clock 0 (filter hasUsableTextContent posts)))"
    using assms by (auto simp: selectBestPost_def Let_def split: if_splits list.splits)
  then show ?thesis by (simp add: set_Array_sort)
qed


text \<open>
  As long as no total score is \<open>NaN\<close>, \<open>selectBestPost\<close> returns the best survivor. It first
  keeps the posts that pass \<open>hasUsableTextContent\<close>. When none passes (the empty batch
  included) it returns nothing. Otherwise it returns the score of a surviving post, the
  \<open>i\<close>-th in batch order, whose total score is the highest of all survivors and strictly
  higher than that of every survivor before it: among survivors that tie on the total
  score the earliest one wins. No total score is \<open>NaN\<close> when the counts of every post are
  not negative (\<open>totalScore_not_NaN\<close>).
\<close>

lemma selectBestPost_highest_total:
  assumes "\<forall>s \<in> set (score_from lg clock 0 (filter hasUsableTextContent posts)). totalScore s \<noteq> NaN"
  shows "(filter hasUsableTextContent posts = [] \<longrightarrow> selectBestPost lg clock posts = None)
    \<and> (filter hasUsableTextContent posts \<noteq> [] \<longrightarrow>
        (\<exists>i<length (filter hasUsableTextContent posts).
           selectBestPost lg clock posts
             = Some (scorePost lg (clock i) (filter hasUsableTextContent posts ! i))
         \<and> (\<forall>j<length (filter hasUsableTextContent posts).
               js_le (totalScore (scorePost lg (clock j) (filter hasUsableTextContent posts ! j)))
                     (totalScore (scorePost lg (clock i) (filter hasUsableTextContent posts ! i))))
         \<and> (\<forall>j<i.
               js_lt (totalScore (scorePost lg (clock j) (filter hasUsableTextContent posts ! j)))
                     (totalScore (scorePost lg (clock i) (filter hasUsableTextContent posts ! i))))))"
proof (intro conjI impI)
  assume "filter hasUsableTextContent posts = []"
  then show "selectBestPost lg clock posts = None"
    by (simp add: selectBestPost_def)
next
  let ?us = "filter hasUsableTextContent posts"
  let ?sc = "score_from lg clock 0 ?us"
  assume ne: "?us \<noteq> []"
  then have "?sc \<noteq> []" by (cases ?us) simp_all
  from Array_sort_head[OF this assms]
  obtain i best others where
    srt: "Array_sort compareScores ?sc = best # others" and i: "i < length ?sc"
    and best: "best = ?sc ! i"
    and le: "\<forall>j<length ?sc. js_le (totalScore (?sc ! j)) (totalScore best)"
    and lt: "\<forall>j<i. js_lt (totalScore (?sc ! j)) (totalScore best)"
    by blast
  have i': "i < length ?us" using i by (simp add: length_score_from)
  have posts: "posts \<noteq> []" using ne by auto
  have sel: "selectBestPost lg clock posts = Some best"
    using ne posts srt by (simp add: selectBestPost_def Let_def)
  have nth: "\<And>j. j < length ?us \<Longrightarrow> ?sc ! j = scorePost lg (clock j) (?us ! j)"
    using score_from_nth[of _ ?us lg clock 0] by simp
  show "\<exists>i<length ?us. selectBestPost lg clock posts = Some (scorePost lg (clock i) (?us ! i))
         \<and> (\<forall>j<length ?us. js_le (totalScore (scorePost lg (clock j) (?us ! j)))
                     (totalScore (scorePost lg (clock i) (?us ! i))))
         \<and> (\<forall>j<i. js_lt (totalScore (scorePost lg (clock j) (?us ! j)))
                     (totalScore (scorePost lg (clock i) (?us ! i))))"
  proof (intro exI[of _ i] conjI allI impI)
    show "i < length ?us" by (rule i')
    show "selectBestPost lg clock posts = Some (scorePost lg (clock i) (?us ! i))"
      using sel best nth[OF i'] by simp
    fix j assume "j < length ?us"
    then show "js_le (totalScore (scorePost lg (clock j) (?us ! j)))
                     (totalScore (scorePost lg (clock i) (?us ! i)))"
      using le best nth i' by (simp add: length_score_from)
  next
    fix j assume "j < i"
    then show "js_lt (totalScore (scorePost lg (clock j) (?us ! j)))
                     (totalScore (scorePost lg (clock i) (?us ! i)))"
      using lt best nth i' by simp
  qed
qed

lemma totalScore_post_id:
  "totalScore (scorePost lg now (p\<lparr>post_id := x\<rparr>)) = totalScore (scorePost lg now p)"
  by (simp add: scorePost_def calculateEngagementScore_def Let_def)

lemma createMockPost_usable: "hasUsableTextContent (createMockPost now\<lparr>post_id := x\<rparr>)"
  by (simp add: hasUsableTextContent_def createMockPost_def countWords_def trim_def
      is_space_def startsWith_def Let_def)

text \<open>
  Two posts that differ in their identifier only tie on the total score; the first of the
  batch is returned.
\<close>

lemma selectBestPost_first_of_tie:
  "selectBestPost lg (fixed_clock 7200)
     [createMockPost 7200\<lparr>post_id := ''first''\<rparr>, createMockPost 7200\<lparr>post_id := ''second''\<rparr>]
   = Some (scorePost lg 7200 (createMockPost 7200\<lparr>post_id := ''first''\<rparr>))"
proof -
  let ?a = "createMockPost 7200\<lparr>post_id := ''first''\<rparr>"
  let ?b = "createMockPost 7200\<lparr>post_id := ''second''\<rparr>"
  have us: "filter hasUsableTextContent [?a, ?b] = [?a, ?b]"
    by (simp add: createMockPost_usable)
  have tie: "totalScore (scorePost lg 7200 ?a) = totalScore (scorePost lg 7200 ?b)"
    by (simp add: totalScore_post_id)
  have "\<forall>s \<in> set (score_from lg (fixed_clock 7200) 0 (filter hasUsableTextContent [?a, ?b])).
          totalScore s \<noteq> NaN"
    unfolding us by (simp add: totalScore_not_NaN createMockPost_def double_at)
  note th = selectBestPost_highest_total[OF this, unfolded us fixed_clock_def]
  have ne: "[?a, ?b] \<noteq> []" by simp
  from th[THEN conjunct2, THEN mp, OF ne]
  obtain i where i: "i < length [?a, ?b]"
    and sel: "selectBestPost lg (\<lambda>k. 7200) [?a, ?b] = Some (scorePost lg 7200 ([?a, ?b] ! i))"
    and lt: "\<forall>j<i. js_lt (totalScore (scorePost lg 7200 ([?a, ?b] ! j)))
                       (totalScore (scorePost lg 7200 ([?a, ?b] ! i)))"
    by blast
  have "i = 0"
  proof (rule ccontr)
    assume "i \<noteq> 0"
    then have "i = 1" using i by simp
    then have "js_lt (totalScore (scorePost lg 7200 ?a)) (totalScore (scorePost lg 7200 ?b))"
      using lt by simp
    then show False using tie js_lt_irrefl by simp
  qed
  then show ?thesis using sel by (simp add: fixed_clock_def)
qed

text \<open>The content quality of the two posts without votes.\<close>

lemma quality_lowPost:
  "calculateContentQuality (title lowPost @ '' '' @ selftext lowPost)
   = Num (1 / 2)"
proof -
  have ft: "title lowPost @ '' '' @ selftext lowPost
      = ''Test Post Title This is a test post with some content that should be analyzed by the algorithm.''"
    by (simp add: lowPost_def quietPost_def createMockPost_def)
  have p: "length (filter (\<lambda>p. length (trim p) > 0) (split_paragraphs
      ''Test Post Title This is a test post with some content that should be analyzed by the algorithm.'')) = 1"
    by (simp add: paragraph_break_def trim_def is_space_def newline_def Let_def)
  have s: "length (filter (\<lambda>s. length (trim s) > 0) (split_on is_sentence_end
      ''Test Post Title This is a test post with some content that should be analyzed by the algorithm.'')) = 1"
    by (simp add: is_sentence_end_def trim_def is_space_def)
  have c: "length (filter is_upper
      ''Test Post Title This is a test post with some content that should be analyzed by the algorithm.'') = 4"
    by (simp add: is_upper_def)
  have u: "url_matches
      ''Test Post Title This is a test post with some content that should be analyzed by the algorithm.'' = []"
    by (simp add: url_at_def startsWith_def)
  show ?thesis
    unfolding ft calculateContentQuality_def Let_def p s c u
    by (simp add: trim_def is_space_def js_sub_def double_at)
qed

lemma quality_highPost:
  "calculateContentQuality (title highPost @ '' '' @ selftext highPost)
   = Num (5854679515581645 / 9007199254740992)"
proof -
  have ft: "title highPost @ '' '' @ selftext highPost
      = ''Test Post Title This is a test post. It has some content. It should be analyzed by the algorithm.''"
    by (simp add: highPost_def quietPost_def createMockPost_def)
  have p: "length (filter (\<lambda>p. length (trim p) > 0) (split_paragraphs
      ''Test Post Title This is a test post. It has some content. It should be analyzed by the algorithm.'')) = 1"
    by (simp add: paragraph_break_def trim_def is_space_def newline_def Let_def)
  have s: "length (filter (\<lambda>s. length (trim s) > 0) (split_on is_sentence_end
      ''Test Post Title This is a test post. It has some content. It should be analyzed by the algorithm.'')) = 3"
    by (simp add: is_sentence_end_def trim_def is_space_def)
  have c: "length (filter is_upper
      ''Test Post Title This is a test post. It has some content. It should be analyzed by the algorithm.'') = 6"
    by (simp add: is_upper_def)
  have u: "url_matches
      ''Test Post Title This is a test post. It has some content. It should be analyzed by the algorithm.'' = []"
    by (simp add: url_at_def startsWith_def)
  show ?thesis
    unfolding ft calculateContentQuality_def Let_def p s c u
    by (simp add: trim_def is_space_def js_sub_def double_at)
qed

text \<open>
  Claim C5, at a batch with a post whose total score is \<open>NaN\<close>. The three posts pass
  \<open>hasUsableTextContent\<close>. The first and the third have no votes and no comments, so
  their engagement score is 0 for every engine, and their total scores are 0.1824 and
  0.22920000000000001. The second has a score of -5 and its total score is \<open>NaN\<close>. The
  comparator \<open>b.totalScore - a.totalScore\<close> is \<open>NaN\<close> whenever the second post is one of
  the two, the sort keeps the order of the batch, and \<open>selectBestPost\<close> returns the first
  post, whose total score is strictly below that of the third. From the batch without
  the second post it returns the third.
\<close>

theorem selectBestPost_nan_total:
  "hasUsableTextContent lowPost \<and> hasUsableTextContent nanPost \<and> hasUsableTextContent highPost
   \<and> totalScore (scorePost lg 3600 lowPost) = Num (1642913144064757 / 9007199254740992)
   \<and> totalScore (scorePost lg 3600 nanPost) = NaN
   \<and> totalScore (scorePost lg 3600 highPost) = Num (4128900138373271 / 18014398509481984)
   \<and> js_lt (totalScore (scorePost lg 3600 lowPost)) (totalScore (scorePost lg 3600 highPost))
   \<and> selectBestPost lg (fixed_clock 3600) [lowPost, nanPost, highPost]
       = Some (scorePost lg 3600 lowPost)
   \<and> selectBestPost lg (fixed_clock 3600) [lowPost, highPost]
       = Some (scorePost lg 3600 highPost)"
proof -
  have u: "hasUsableTextContent lowPost" "hasUsableTextContent nanPost"
    "hasUsableTextContent highPost"
    by (simp_all add: lowPost_def nanPost_def highPost_def quietPost_def
        hasUsableTextContent_def createMockPost_def countWords_def trim_def is_space_def
        startsWith_def Let_def)
  have e: "calculateEngagementScore lg 3600 (quietPost pid body) = Num 0" for pid body
    by (simp add: calculateEngagementScore_def getPostAgeHours_def quietPost_def
        createMockPost_def Let_def js_sub_def double_at)
  have wl: "countWords (title lowPost @ '' '' @ selftext lowPost) = 18"
    by (simp add: lowPost_def quietPost_def createMockPost_def countWords_def trim_def
        is_space_def)
  have wh: "countWords (title highPost @ '' '' @ selftext highPost) = 19"
    by (simp add: highPost_def quietPost_def createMockPost_def countWords_def trim_def
        is_space_def)
  note ql = quality_lowPost and qh = quality_highPost
  have tl: "calculateTextLengthScore 18 = Num (7782220156096217 / 72057594037927936)"
    "calculateTextLengthScore 19 = Num (1026820715040473 / 9007199254740992)"
    by (simp_all add: calculateTextLengthScore_def textLength_min_def textLength_ideal_min_def
        textLength_ideal_max_def textLength_max_def Let_def js_sub_def double_at)
  have low: "totalScore (scorePost lg 3600 lowPost) = Num (1642913144064757 / 9007199254740992)"
    using e[of "''low''"] wl ql tl
    by (simp add: scorePost_def Let_def lowPost_def weights_engagement_def
        weights_textLength_def weights_quality_def double_at)
  have high: "totalScore (scorePost lg 3600 highPost)
      = Num (4128900138373271 / 18014398509481984)"
    using e[of "''high''"] wh qh tl
    by (simp add: scorePost_def Let_def highPost_def weights_engagement_def
        weights_textLength_def weights_quality_def double_at)
  have "calculateEngagementScore lg 3600 nanPost = NaN"
    by (simp add: calculateEngagementScore_def getPostAgeHours_def nanPost_def
        createMockPost_def Let_def js_sub_def double_at)
  then have nan: "totalScore (scorePost lg 3600 nanPost) = NaN"
    by (simp add: scorePost_def Let_def)
  have lt: "js_lt (totalScore (scorePost lg 3600 lowPost)) (totalScore (scorePost lg 3600 highPost))"
    unfolding low high by simp
  have three: "selectBestPost lg (fixed_clock 3600) [lowPost, nanPost, highPost]
      = Some (scorePost lg 3600 lowPost)"
    using u low nan high
    by (simp add: selectBestPost_def Array_sort_def compareScores_def js_sub_def fixed_clock_def)
  have two: "selectBestPost lg (fixed_clock 3600) [lowPost, highPost]
      = Some (scorePost lg 3600 highPost)"
    using u low high
    by (simp add: selectBestPost_def Array_sort_def compareScores_def js_sub_def fixed_clock_def
        double_at)
  show ?thesis using u low nan high lt three two by simp
qed


subsection \<open>Link posts\<close>

lemma selectBestPost_single:
  "hasUsableTextContent p \<Longrightarrow> selectBestPost lg clock [p] = Some (scorePost lg (clock 0) p)"
  by (simp add: selectBestPost_def Array_sort_def)


text \<open>
  Claim C7 as stated fails. The body \<open>see https://example.com/...\<close> has 60 characters, 56
  of them in the link (93 percent), and the title and body have twelve words. The body does
  not start with \<open>http\<close>, so \<open>hasUsableTextContent\<close> never looks at the share of the link:
  the post is usable, and as the only post of a batch it is selected.
\<close>

theorem link_heavy_body_selected:
  "real (urlLength (selftext (linkPost ''see https://example.com/a-very-long-link-that-fills-the-body'')))
     / real (length (selftext (linkPost ''see https://example.com/a-very-long-link-that-fills-the-body''))) > 0.8
   \<and> hasUsableTextContent (linkPost ''see https://example.com/a-very-long-link-that-fills-the-body'')
   \<and> selectBestPost nearest_log10 (fixed_clock 0) [linkPost ''see https://example.com/a-very-long-link-that-fills-the-body'']
       = Some (scorePost nearest_log10 0 (linkPost ''see https://example.com/a-very-long-link-that-fills-the-body''))"
proof -
  have u: "hasUsableTextContent (linkPost ''see https://example.com/a-very-long-link-that-fills-the-body'')"
    by (simp add: linkPost_def hasUsableTextContent_def createMockPost_def countWords_def trim_def
      is_space_def startsWith_def Let_def)
  have r: "urlLength ''see https://example.com/a-very-long-link-that-fills-the-body'' = 56"
    by (simp add: urlLength_def url_at_def startsWith_def is_space_def)
  show ?thesis
    using u r selectBestPost_single[OF u, of nearest_log10 "fixed_clock 0"]
    by (simp add: linkPost_def createMockPost_def fixed_clock_def)
qed


text \<open>
  Claim C7, amended. A post whose body, once trimmed, starts with \<open>http\<close> and whose links
  make up more than 80 percent of the body's characters fails \<open>hasUsableTextContent\<close>
  whatever its word count. It is removed before scoring: no score is computed for it, and
  \<open>selectBestPost\<close> never returns it.
\<close>

theorem link_only_excluded:
  assumes "selftext p \<noteq> []"
    and "startsWith (trim (selftext p)) ''http''"
    and "real (urlLength (selftext p)) / real (length (selftext p)) > 0.8"
  shows "\<not> hasUsableTextContent p
       \<and> p \<notin> set (filter hasUsableTextContent posts)
       \<and> p \<notin> post ` set (score_from lg clock 0 (filter hasUsableTextContent posts))
       \<and> (\<forall>s. selectBestPost lg clock posts = Some s \<longrightarrow> post s \<noteq> p)"
proof -
  have no: "\<not> hasUsableTextContent p"
    using assms by (simp add: hasUsableTextContent_def Let_def)
  then have nin: "p \<notin> set (filter hasUsableTextContent posts)" by simp
  then have nsc: "p \<notin> post ` set (score_from lg clock 0 (filter hasUsableTextContent posts))"
    by (simp add: post_score_from)
  have "\<forall>s. selectBestPost lg clock posts = Some s \<longrightarrow> post s \<noteq> p"
    using nsc selectBestPost_scored by blast
  then show ?thesis using no nin nsc by blast
qed

theorem link_only_excluded_witness:
  "10 \<le> countWords (trim (title (linkPost ''https://example.com/a-very-long-link-that-fills-the-body'')
        @ '' '' @ selftext (linkPost ''https://example.com/a-very-long-link-that-fills-the-body'')))
   \<and> \<not> hasUsableTextContent (linkPost ''https://example.com/a-very-long-link-that-fills-the-body'')
   \<and> selectBestPost nearest_log10 (fixed_clock 0)
        [linkPost ''https://example.com/a-very-long-link-that-fills-the-body'', createMockPost 0]
      = Some (scorePost nearest_log10 0 (createMockPost 0))"
proof -
  let ?p = "linkPost ''https://example.com/a-very-long-link-that-fills-the-body''"
  have a: "selftext ?p \<noteq> []" by (simp add: linkPost_def)
  have b: "startsWith (trim (selftext ?p)) ''http''"
    by (simp add: linkPost_def trim_def startsWith_def is_space_def)
  have r: "urlLength ''https://example.com/a-very-long-link-that-fills-the-body'' = 56"
    by (simp add: urlLength_def url_at_def startsWith_def is_space_def)
  have c: "real (urlLength (selftext ?p)) / real (length (selftext ?p)) > 0.8"
    using r by (simp add: linkPost_def)
  have w: "10 \<le> countWords (trim (title ?p @ '' '' @ selftext ?p))"
    by (simp add: linkPost_def createMockPost_def countWords_def trim_def is_space_def)
  have m: "hasUsableTextContent (createMockPost 0)"
    using createMockPost_usable[where now=0 and x="post_id (createMockPost 0)"] by simp
  from link_only_excluded[OF a b c, where posts="[?p, createMockPost 0]" and clock="fixed_clock 0"
      and lg=nearest_log10]
  have no: "\<not> hasUsableTextContent ?p" by blast
  then have "selectBestPost nearest_log10 (fixed_clock 0) [?p, createMockPost 0] = Some (scorePost nearest_log10 0 (createMockPost 0))"
    using m by (simp add: selectBestPost_def Array_sort_def fixed_clock_def)
  then show ?thesis using no w by simp
qed




text \<open>
  The comparison of the share with \<open>0.8\<close>, on the exact quotient and on the doubles. The
  double of \<open>0.8\<close> lies above \<open>0.8\<close> by a fifth of \<open>2 ^ -52\<close>; a quotient of lengths above
  \<open>0.8\<close> exceeds it by at least \<open>1 / (5 * b)\<close>, which is more than the step to the next
  double as long as \<open>b < 2 ^ 50\<close>.
\<close>

lemma link_share_double:
  assumes "0 < b" and "b < 2 ^ 50"
  shows "(double 0.8 < double (real a / real b)) = (real a / real b > 0.8)"
proof (cases "real a / real b > 0.8")
  case False
  then have "real a / real b \<le> 0.8" by simp
  from double_mono_all[OF this] show ?thesis using False by simp
next
  case True
  have b: "0 < real b" using assms by simp
  have "4 / 5 < real a / real b" using True by simp
  then have "4 / 5 * real b < real a" using b by (simp add: pos_less_divide_eq)
  then have "real (4 * b) < real (5 * a)" by simp
  then have "4 * b < 5 * a" by (simp only: of_nat_less_iff)
  then have "4 * b + 1 \<le> 5 * a" by simp
  then have "real (4 * b + 1) \<le> real (5 * a)" by (simp only: of_nat_le_iff)
  then have "(4 / 5 + 1 / (5 * real b)) * real b \<le> real a" using b by (simp add: algebra_simps)
  then have q: "4 / 5 + 1 / (5 * real b) \<le> real a / real b" using b by (simp only: pos_le_divide_eq)
  have "real b < 2 ^ 50" using assms(2) by simp
  then have "5 * real b < 5 * 2 ^ 50" by simp
  then have "1 / (5 * (2::real) ^ 50) < 1 / (5 * real b)"
    using b by (intro divide_strict_left_mono mult_pos_pos) simp_all
  moreover have "7205759403792795 / 9007199254740992 \<le> 4 / 5 + 1 / (5 * (2::real) ^ 50)"
    by simp
  ultimately have "7205759403792795 / 9007199254740992 \<le> real a / real b"
    using q by linarith
  from double_mono_all[OF this]
  have "7205759403792795 / 9007199254740992 \<le> double (real a / real b)"
    by (simp add: double_at)
  moreover have "double 0.8 = 3602879701896397 / 4503599627370496" by (simp add: double_at)
  ultimately show ?thesis using True by simp
qed



section \<open>The text formatter\<close>

text \<open>
  \<open>FormattedText\<close>; its field \<open>text\<close> is \<open>formatted_text\<close> here.
\<close>

record FormattedText =
  formatted_text :: string
  wordCount :: nat
  estimatedDuration :: int

definition MAX_DURATION_SECONDS :: nat where "MAX_DURATION_SECONDS = 90"
definition WORDS_PER_MINUTE :: nat where "WORDS_PER_MINUTE = 150"

text \<open>
  \<open>addPauses\<close>: \<open>replace(/\n\n+/g, '.\n\n')\<close>, then \<open>replace(/([.!?])\s+/g, '$1 ')\<close>.
\<close>

function paragraph_pauses :: "string \<Rightarrow> string" where
  "paragraph_pauses [] = []"
| "paragraph_pauses [c] = [c]"
| "paragraph_pauses (c # d # cs) =
     (if c = newline \<and> d = newline
      then CHR ''.'' # newline # newline # paragraph_pauses (dropWhile (\<lambda>x. x = newline) cs)
      else c # paragraph_pauses (d # cs))"
  by pat_completeness auto
termination
  by (relation "measure length") (auto simp: le_imp_less_Suc length_dropWhile_le less_Suc_eq_le le_SucI)

function sentence_pauses :: "string \<Rightarrow> string" where
  "sentence_pauses [] = []"
| "sentence_pauses [c] = [c]"
| "sentence_pauses (c # d # cs) =
     (if is_sentence_end c \<and> is_space d
      then c # CHR '' '' # sentence_pauses (dropWhile is_space cs)
      else c # sentence_pauses (d # cs))"
  by pat_completeness auto
termination
  by (relation "measure length") (auto simp: le_imp_less_Suc length_dropWhile_le less_Suc_eq_le le_SucI)

definition addPauses :: "string \<Rightarrow> string" where
  "addPauses txt = sentence_pauses (paragraph_pauses txt)"

text \<open>
  \<open>Math.ceil((wordCount / WORDS_PER_MINUTE) * 60)\<close>: the quotient is rounded to a double, then
  the product is.
\<close>

definition estimateDuration :: "nat \<Rightarrow> int" where
  "estimateDuration wc = \<lceil>double (double (real wc / real WORDS_PER_MINUTE) * 60)\<rceil>"

text \<open>
  The formatter's own \<open>countWords\<close>, \<open>text.trim().split(/\s+/).length\<close>: unlike the
  analyzer's it has no case for the empty text, which counts as one word.
\<close>

definition formatter_countWords :: "string \<Rightarrow> nat" where
  "formatter_countWords txt = length (split_on is_space (trim txt))"

text \<open>\<open>words.join(' ')\<close> and \<open>s.lastIndexOf(c)\<close>, which is -1 when \<open>c\<close> does not occur.\<close>

fun join_words :: "string list \<Rightarrow> string" where
  "join_words [] = []"
| "join_words [w] = w"
| "join_words (w # ws) = w @ CHR '' '' # join_words ws"

definition lastIndexOf :: "string \<Rightarrow> char \<Rightarrow> int" where
  "lastIndexOf s c =
     (if c \<in> set s then int (length s) - 1 - int (length (takeWhile (\<lambda>x. x \<noteq> c) (rev s)))
      else - 1)"

definition truncateToMaxDuration :: "string \<Rightarrow> nat \<Rightarrow> string" where
  "truncateToMaxDuration txt maxWords =
     (let words = split_on is_space txt in
      if length words \<le> maxWords then txt
      else
        (let truncated = join_words (take maxWords words);
             lastSentenceEnd = max (max (lastIndexOf truncated (CHR ''.''))
                                        (lastIndexOf truncated (CHR ''!'')))
                                   (lastIndexOf truncated (CHR ''?''))
         in if real_of_int lastSentenceEnd > double (real (length truncated) * double 0.7)
            then take (nat (lastSentenceEnd + 1)) truncated
            else truncated @ ''...''))"

text \<open>
  \<open>formatForTTS\<close>. The private \<open>cleanMarkdown\<close> is a chain of regular expression
  rewrites applied to the title and to the body before anything is counted. Nothing below
  depends on what it rewrites, so it is a parameter: every statement about \<open>formatForTTS\<close>
  holds for each function from strings to strings, the formatter's own among them.
\<close>

definition formatForTTS :: "(string \<Rightarrow> string) \<Rightarrow> RedditPost \<Rightarrow> FormattedText" where
  "formatForTTS cleanMarkdown p =
     (let title' = cleanMarkdown (title p);
          body = (if selftext p \<noteq> [] then cleanMarkdown (selftext p) else []);
          combinedText = (if body \<noteq> [] then title' @ ''. '' @ body else title');
          wc = formatter_countWords combinedText;
          est = estimateDuration wc
      in if est > int MAX_DURATION_SECONDS
         then
           (let maxWords = nat \<lfloor>double (double (real MAX_DURATION_SECONDS / 60)
                                          * real WORDS_PER_MINUTE)\<rfloor>;
                truncatedText = truncateToMaxDuration combinedText maxWords;
                wc' = formatter_countWords truncatedText;
                est' = estimateDuration wc'
            in \<lparr> formatted_text = addPauses truncatedText, wordCount = wc',
                 estimatedDuration = est' \<rparr>)
         else \<lparr> formatted_text = addPauses combinedText, wordCount = wc,
                estimatedDuration = est \<rparr>)"

subsection \<open>The estimate of the duration\<close>

lemma estimateDuration_mono: "a \<le> b \<Longrightarrow> estimateDuration a \<le> estimateDuration b"
proof -
  assume "a \<le> b"
  then have "real a / real WORDS_PER_MINUTE \<le> real b / real WORDS_PER_MINUTE"
    by (simp add: divide_right_mono)
  then have 1: "double (real a / real WORDS_PER_MINUTE) \<le> double (real b / real WORDS_PER_MINUTE)"
    by (intro double_mono) simp_all
  have "0 \<le> double (real a / real WORDS_PER_MINUTE)"
    using double_pos[of "real a / real WORDS_PER_MINUTE"]
    by (cases "a = 0") (simp_all add: less_eq_real_def WORDS_PER_MINUTE_def)
  then have "double (double (real a / real WORDS_PER_MINUTE) * 60) \<le> double (double (real b / real WORDS_PER_MINUTE) * 60)"
    using 1 by (intro double_mono) simp_all
  then show ?thesis unfolding estimateDuration_def by (rule ceiling_mono)
qed

lemma estimateDuration_18: "estimateDuration 18 = 8"
proof -
  have 1: "double (18 / 150) = 1080863910568919 / 9007199254740992"
    using double_eqI[of "18 / 150" "-4"] by (simp add: double_eval)
  have 2: "double (1080863910568919 / 9007199254740992 * 60)
      = 2026619832316723 / 281474976710656"
    using double_eqI[of "1080863910568919 / 9007199254740992 * 60" 2] by (simp add: double_eval)
  show ?thesis unfolding estimateDuration_def WORDS_PER_MINUTE_def of_nat_numeral 1 2 by simp
qed

lemma estimateDuration_155: "estimateDuration 155 = 63 \<and> \<lceil>(155::real) / 150 * 60\<rceil> = 62"
proof -
  have 1: "double (155 / 150) = 4653719614949513 / 4503599627370496"
    using double_eqI[of "155 / 150" 0] by (simp add: double_eval)
  have 2: "double (4653719614949513 / 4503599627370496 * 60)
      = 8725724278030337 / 140737488355328"
    using double_eqI[of "4653719614949513 / 4503599627370496 * 60" 5] by (simp add: double_eval)
  show ?thesis unfolding estimateDuration_def WORDS_PER_MINUTE_def of_nat_numeral 1 2 by simp
qed

lemma estimateDuration_225: "estimateDuration 225 = 90"
proof -
  have 1: "double (225 / 150) = 3 / 2"
    using double_eqI[of "225 / 150" 0] by (simp add: double_eval)
  have 2: "double (3 / 2 * 60) = 90"
    using double_eqI[of "3 / 2 * 60" 6] by (simp add: double_eval)
  show ?thesis unfolding estimateDuration_def WORDS_PER_MINUTE_def of_nat_numeral 1 2 by simp
qed

lemma estimateDuration_226: "estimateDuration 226 = 91"
proof -
  have 1: "double (226 / 150) = 6785423438571547 / 4503599627370496"
    using double_eqI[of "226 / 150" 0] by (simp add: double_eval)
  have 2: "double (6785423438571547 / 4503599627370496 * 60)
      = 6361334473660825 / 70368744177664"
    using double_eqI[of "6785423438571547 / 4503599627370496 * 60" 6] by (simp add: double_eval)
  show ?thesis unfolding estimateDuration_def WORDS_PER_MINUTE_def of_nat_numeral 1 2 by simp
qed


lemma maxWords_225:
  "nat \<lfloor>double (double (real MAX_DURATION_SECONDS / 60) * real WORDS_PER_MINUTE)\<rfloor> = 225"
proof -
  have 1: "double (90 / 60) = 3 / 2"
    using double_eqI[of "90 / 60" 0] by (simp add: double_eval)
  have 2: "double (3 / 2 * 150) = 225"
    using double_eqI[of "3 / 2 * 150" 7] by (simp add: double_eval)
  show ?thesis
    unfolding MAX_DURATION_SECONDS_def WORDS_PER_MINUTE_def of_nat_numeral 1 2 by simp
qed

subsection \<open>Words after truncation\<close>

lemma split_on_nonempty: "split_on P s \<noteq> []"
  by (induction P s rule: split_on.induct) (auto split: list.splits)

lemma split_on_no_sep: "\<forall>c\<in>set t. \<not> P c \<Longrightarrow> split_on P t = [t]"
  by (induction t) simp_all

lemma split_on_pieces: "t \<in> set (split_on P s) \<Longrightarrow> x \<in> set t \<Longrightarrow> \<not> P x"
proof (induction P s arbitrary: t rule: split_on.induct)
  case (1 sep)
  then show ?case by simp
next
  case (2 sep c cs)
  show ?case
  proof (cases "sep c")
    case True
    then have "t = [] \<or> t \<in> set (split_on sep (dropWhile sep cs))"
      using 2(3) by simp
    then show ?thesis using 2(1)[OF True] 2(4) by auto
  next
    case False
    obtain u us where u: "split_on sep cs = u # us"
      using split_on_nonempty[of sep cs] by (cases "split_on sep cs") auto
    then have "t = c # u \<or> t \<in> set us" using 2(3) False by simp
    then show ?thesis
      using 2(2)[OF False, of u] 2(2)[OF False, of t] u False 2(4) by auto
  qed
qed

lemma dropWhile_no_sep: "\<forall>x\<in>set t. \<not> P x \<Longrightarrow> dropWhile P t = t"
  by (cases t) simp_all

lemma dropWhile_all: "\<forall>x\<in>set xs. P x \<Longrightarrow> dropWhile P xs = []"
  by simp

lemma length_split_on_append:
  "\<forall>x\<in>set t. \<not> P x \<Longrightarrow> length (split_on P (s @ t)) = length (split_on P s)"
proof (induction P s rule: split_on.induct)
  case (1 sep)
  then show ?case by (simp add: split_on_no_sep)
next
  case (2 sep c cs)
  show ?case
  proof (cases "sep c")
    case True
    show ?thesis
    proof (cases "\<forall>x\<in>set cs. sep x")
      case all: True
      then have "dropWhile sep (cs @ t) = t" "dropWhile sep cs = []"
        using 2(3) by (simp_all add: dropWhile_append dropWhile_no_sep)
      then show ?thesis using True 2(3) all
        by (simp add: split_on_no_sep dropWhile_append dropWhile_no_sep dropWhile_all)
    next
      case False
      then have "dropWhile sep (cs @ t) = dropWhile sep cs @ t"
        by (auto simp: dropWhile_append)
      then show ?thesis using True 2(1)[OF True 2(3)] by simp
    qed
  next
    case False
    then show ?thesis using 2(2)[OF False 2(3)] split_on_nonempty
      by (auto split: list.splits)
  qed
qed

lemma length_split_on_dropWhile:
  "length (split_on P (dropWhile P s)) \<le> length (split_on P s)"
  by (cases s) auto

lemma length_split_on_take:
  "length (split_on P (take k s)) \<le> length (split_on P s)"
proof (induction P s arbitrary: k rule: split_on.induct)
  case (1 sep)
  then show ?case by simp
next
  case (2 sep c cs)
  show ?case
  proof (cases k)
    case 0
    then show ?thesis using split_on_nonempty[of sep "c # cs"] by (simp add: Suc_leI)
  next
    case (Suc k')
    show ?thesis
    proof (cases "sep c")
      case True
      have "\<exists>j. dropWhile sep (take k' cs) = take j (dropWhile sep cs)"
      proof (induction cs arbitrary: k')
        case Nil
        then show ?case by simp
      next
        case (Cons a as)
        show ?case
        proof (cases k')
          case 0
          then show ?thesis by (intro exI[of _ 0]) simp
        next
          case (Suc n)
          then show ?thesis using Cons[of n] by (cases "sep a") (auto intro: exI[of _ "Suc n"])
        qed
      qed
      then obtain j where "dropWhile sep (take k' cs) = take j (dropWhile sep cs)" by blast
      then show ?thesis using True Suc 2(1)[OF True, of j] by simp
    next
      case False
      then show ?thesis using Suc 2(2)[OF False, of k'] split_on_nonempty
        by (auto split: list.splits)
    qed
  qed
qed

lemma length_split_on_trim:
  "length (split_on is_space (trim s)) \<le> length (split_on is_space s)"
proof -
  have "rev (dropWhile is_space (rev (dropWhile is_space s)))
        = take (length (dropWhile is_space (rev (dropWhile is_space s)))) (dropWhile is_space s)"
    (is "rev (dropWhile _ (rev ?d)) = _")
  proof -
    have "rev ?d = takeWhile is_space (rev ?d) @ dropWhile is_space (rev ?d)" by simp
    then have "?d = rev (dropWhile is_space (rev ?d)) @ rev (takeWhile is_space (rev ?d))"
      by (metis rev_append rev_rev_ident)
    then show ?thesis
      by (metis append_eq_conv_conj length_rev)
  qed
  then have "length (split_on is_space (trim s)) \<le> length (split_on is_space (dropWhile is_space s))"
    unfolding trim_def using length_split_on_take by metis
  then show ?thesis using length_split_on_dropWhile[of is_space s] by simp
qed

lemma length_split_on_sep:
  "\<forall>c\<in>set t. \<not> P c \<Longrightarrow> P x \<Longrightarrow>
     length (split_on P (t @ x # rest)) = Suc (length (split_on P (dropWhile P rest)))"
  using split_on_nonempty by (induction t) (auto split: list.splits)

lemma length_split_on_join:
  "ws \<noteq> [] \<Longrightarrow> \<forall>t\<in>set ws. \<forall>c\<in>set t. \<not> is_space c \<Longrightarrow>
     length (split_on is_space (join_words ws)) \<le> length ws"
proof (induction ws rule: join_words.induct)
  case 1
  then show ?case by simp
next
  case (2 w)
  then show ?case by (simp add: split_on_no_sep)
next
  case (3 w v ws)
  have sp: "is_space (CHR '' '')" by (simp add: is_space_def)
  have "length (split_on is_space (join_words (w # v # ws)))
        = Suc (length (split_on is_space (dropWhile is_space (join_words (v # ws)))))"
    using 3(3) sp by (simp add: length_split_on_sep)
  also have "\<dots> \<le> Suc (length (split_on is_space (join_words (v # ws))))"
    using length_split_on_dropWhile by simp
  also have "\<dots> \<le> Suc (length (v # ws))" using 3 by simp
  finally show ?case by simp
qed

lemma truncateToMaxDuration_words:
  assumes "0 < n" and "n < length (split_on is_space txt)"
  shows "formatter_countWords (truncateToMaxDuration txt n) \<le> n"
proof -
  let ?tr = "join_words (take n (split_on is_space txt))"
  have ne: "take n (split_on is_space txt) \<noteq> []" using assms by (cases "split_on is_space txt") auto
  have "\<forall>t\<in>set (take n (split_on is_space txt)). \<forall>c\<in>set t. \<not> is_space c"
    using split_on_pieces in_set_takeD by fast
  from length_split_on_join[OF ne this]
  have tr: "length (split_on is_space ?tr) \<le> n" by simp
  have dots: "\<forall>c\<in>set ''...''. \<not> is_space c" by (simp add: is_space_def)
  have "truncateToMaxDuration txt n = ?tr @ ''...'' \<or> (\<exists>k. truncateToMaxDuration txt n = take k ?tr)"
    using assms by (auto simp: truncateToMaxDuration_def Let_def)
  then have "length (split_on is_space (truncateToMaxDuration txt n)) \<le> n"
  proof
    assume "truncateToMaxDuration txt n = ?tr @ ''...''"
    then show ?thesis using tr length_split_on_append[OF dots, of ?tr] by simp
  next
    assume "\<exists>k. truncateToMaxDuration txt n = take k ?tr"
    then obtain k where "truncateToMaxDuration txt n = take k ?tr" by blast
    then show ?thesis using tr length_split_on_take[of is_space k ?tr] by simp
  qed
  then show ?thesis
    unfolding formatter_countWords_def
    using length_split_on_trim[of "truncateToMaxDuration txt n"] by simp
qed

lemma formatForTTS_duration:
  "estimatedDuration (formatForTTS clean p) = estimateDuration (wordCount (formatForTTS clean p))
   \<and> estimatedDuration (formatForTTS clean p) \<le> 90"
proof -
  define combined where "combined =
    (if (if selftext p \<noteq> [] then clean (selftext p) else []) \<noteq> []
     then clean (title p) @ ''. '' @ (if selftext p \<noteq> [] then clean (selftext p) else [])
     else clean (title p))"
  define tr where "tr = truncateToMaxDuration combined 225"
  note mw = maxWords_225
  have unfold: "formatForTTS clean p =
    (if estimateDuration (formatter_countWords combined) > 90
     then \<lparr> formatted_text = addPauses tr, wordCount = formatter_countWords tr,
            estimatedDuration = estimateDuration (formatter_countWords tr) \<rparr>
     else \<lparr> formatted_text = addPauses combined, wordCount = formatter_countWords combined,
            estimatedDuration = estimateDuration (formatter_countWords combined) \<rparr>)"
    unfolding formatForTTS_def Let_def mw
    by (simp only: combined_def tr_def MAX_DURATION_SECONDS_def of_nat_numeral)
  show ?thesis
  proof (cases "estimateDuration (formatter_countWords combined) > 90")
    case False
    then show ?thesis by (simp add: unfold)
  next
    case True
    then have "\<not> formatter_countWords combined \<le> 225"
      using estimateDuration_mono[of "formatter_countWords combined" 225] estimateDuration_225
      by auto
    then have "225 < length (split_on is_space combined)"
      using length_split_on_trim[of combined] by (simp add: formatter_countWords_def)
    from truncateToMaxDuration_words[OF _ this]
    have "formatter_countWords tr \<le> 225" by (simp add: tr_def)
    from estimateDuration_mono[OF this]
    have "estimateDuration (formatter_countWords tr) \<le> 90"
      by (simp add: estimateDuration_225)
    then show ?thesis using True by (simp add: unfold)
  qed
qed


section \<open>The speech service: retry and failover\<close>

text \<open>
  The error classes of the repository, each with the fields of its constructor: message
  and status code for the two providers' errors, message and code for the services'
  errors, and the cause for \<open>OrchestrationError\<close>.
\<close>

datatype error =
    Error string
  | ElevenLabsError string nat
  | InworldError string nat
  | TTSServiceError string string
  | StorageError string string
  | OrchestrationError string string "error option"

fun message :: "error \<Rightarrow> string" where
  "message (Error m) = m"
| "message (ElevenLabsError m st) = m"
| "message (InworldError m st) = m"
| "message (TTSServiceError m c) = m"
| "message (StorageError m c) = m"
| "message (OrchestrationError m c cause) = m"

text \<open>
  \<open>error.statusCode\<close> under the test
  \<open>error instanceof ElevenLabsError || error instanceof InworldError\<close>.
\<close>

fun statusCode :: "error \<Rightarrow> nat option" where
  "statusCode (ElevenLabsError m st) = Some st"
| "statusCode (InworldError m st) = Some st"
| "statusCode e = None"

definition authFailure :: "error \<Rightarrow> bool" where
  "authFailure e = (statusCode e = Some 401 \<or> statusCode e = Some 403)"

text \<open>
  A provider is an external service: what it answers can change from one call to the next.
  \<open>generateSpeech p txt k\<close> is the outcome of the \<open>k\<close>-th call of \<open>generateSpeech\<close> on
  \<open>p\<close> (counted from 0), a thrown error or the audio, and \<open>isAvailable p k\<close> the answer to
  the \<open>k\<close>-th call of \<open>isAvailable\<close>; both providers of the repository catch every failure
  of that probe and answer \<open>false\<close>.
\<close>

type_synonym Buffer = "8 word list"

record TTSProvider =
  name :: string
  generateSpeech :: "string \<Rightarrow> nat \<Rightarrow> error + Buffer"
  isAvailable :: "nat \<Rightarrow> bool"

text \<open>
  What \<open>generateWithRetry\<close> does to a provider, in order: a probe with its answer, a call
  of \<open>generateSpeech\<close> with its outcome, a wait of so many milliseconds.
\<close>

datatype event = Probe bool | Synthesize "error + Buffer" | Wait nat

text \<open>\<open>RETRY_CONFIG\<close> and \<open>waitWithBackoff\<close>; every call site passes an attempt of at least 1.\<close>

definition maxAttempts :: nat where "maxAttempts = 3"
definition initialDelayMs :: nat where "initialDelayMs = 1000"
definition maxDelayMs :: nat where "maxDelayMs = 5000"
definition backoffMultiplier :: nat where "backoffMultiplier = 2"

definition waitWithBackoff :: "nat \<Rightarrow> event" where
  "waitWithBackoff attempt =
     Wait (min (initialDelayMs * backoffMultiplier ^ (attempt - 1)) maxDelayMs)"

text \<open>
  The \<open>catch\<close> block of \<open>generateWithRetry\<close>: it throws the error again, or waits and lets the
  loop go on to the next attempt.
\<close>

datatype caught = Rethrow | Retry "event list"

definition on_catch :: "error \<Rightarrow> nat \<Rightarrow> caught" where
  "on_catch e attempt =
     (if statusCode e = Some 401 \<or> statusCode e = Some 403 then Rethrow
      else if statusCode e = Some 429 \<and> attempt < maxAttempts
      then Retry [waitWithBackoff (attempt + 1)]
      else if attempt < maxAttempts then Retry [waitWithBackoff attempt]
      else Retry [])"

definition prepend :: "'e list \<Rightarrow> 'r \<times> 'e list \<Rightarrow> 'r \<times> 'e list" where
  "prepend es rt = (fst rt, es @ snd rt)"

text \<open>
  The loop of \<open>generateWithRetry\<close> from \<open>attempt\<close> on; \<open>probes\<close> and \<open>calls\<close> count the
  calls of \<open>isAvailable\<close> and of \<open>generateSpeech\<close> made so far on this provider.
\<close>

function generateWithRetry_loop ::
  "TTSProvider \<Rightarrow> string \<Rightarrow> nat \<Rightarrow> nat \<Rightarrow> nat \<Rightarrow> error option
     \<Rightarrow> (error + Buffer) \<times> event list" where
  "generateWithRetry_loop p txt attempt probes calls lastError =
     (if attempt \<le> maxAttempts then
        (if \<not> isAvailable p probes then
           (case on_catch (Error (''Provider '' @ name p @ '' is not available'')) attempt of
              Rethrow \<Rightarrow>
                (Inl (Error (''Provider '' @ name p @ '' is not available'')), [Probe False])
            | Retry waits \<Rightarrow>
                prepend (Probe False # waits)
                  (generateWithRetry_loop p txt (Suc attempt) (Suc probes) calls
                     (Some (Error (''Provider '' @ name p @ '' is not available'')))))
         else
           (case generateSpeech p txt calls of
              Inr audio \<Rightarrow> (Inr audio, [Probe True, Synthesize (Inr audio)])
            | Inl e \<Rightarrow>
                (case on_catch e attempt of
                   Rethrow \<Rightarrow> (Inl e, [Probe True, Synthesize (Inl e)])
                 | Retry waits \<Rightarrow>
                     prepend (Probe True # Synthesize (Inl e) # waits)
                       (generateWithRetry_loop p txt (Suc attempt) (Suc probes) (Suc calls)
                          (Some e)))))
      else
        (Inl (case lastError of Some e \<Rightarrow> e | None \<Rightarrow> Error ''All retry attempts failed''),
         []))"
  by pat_completeness auto
termination
  by (relation "measure (\<lambda>(p, txt, attempt, probes, calls, lastError). Suc maxAttempts - attempt)")
     auto

declare generateWithRetry_loop.simps [simp del]

definition generateWithRetry :: "TTSProvider \<Rightarrow> string \<Rightarrow> (error + Buffer) \<times> event list" where
  "generateWithRetry p txt = generateWithRetry_loop p txt 1 0 0 None"

record AudioGenerationResult =
  audioBuffer :: Buffer
  provider :: string
  voice :: string
  duration :: int
  sizeBytes :: nat

text \<open>
  \<open>ELEVENLABS_CONFIG.voiceId\<close> and \<open>INWORLD_CONFIG.character\<close> are read from the process
  environment, \<open>process.env.X || default\<close>.
\<close>

record process_env =
  ELEVENLABS_VOICE_ID :: "string option"
  INWORLD_CHARACTER_ID :: "string option"

definition env_or :: "string option \<Rightarrow> string \<Rightarrow> string" where
  "env_or v dflt = (case v of None \<Rightarrow> dflt | Some s \<Rightarrow> if s = [] then dflt else s)"

definition ELEVENLABS_CONFIG_voiceId :: "process_env \<Rightarrow> string" where
  "ELEVENLABS_CONFIG_voiceId env = env_or (ELEVENLABS_VOICE_ID env) ''21m00Tcm4TlvDq8ikWAM''"

definition INWORLD_CONFIG_character :: "process_env \<Rightarrow> string" where
  "INWORLD_CONFIG_character env = env_or (INWORLD_CHARACTER_ID env) ''narrator_01''"

definition voiceUsed :: "process_env \<Rightarrow> TTSProvider \<Rightarrow> string" where
  "voiceUsed env p =
     (if name p = ''elevenlabs'' then ELEVENLABS_CONFIG_voiceId env
      else if name p = ''inworld'' then INWORLD_CONFIG_character env
      else ''unknown'')"

text \<open>
  The loop of \<open>generateAudio\<close> over the providers from index \<open>i\<close> on. Its trace pairs each
  event with the index of the provider it happened on.
\<close>

definition tag :: "nat \<Rightarrow> event list \<Rightarrow> (nat \<times> event) list" where
  "tag i t = map (Pair i) t"

fun generateAudio_loop ::
  "process_env \<Rightarrow> FormattedText \<Rightarrow> TTSProvider list \<Rightarrow> nat \<Rightarrow> error option
     \<Rightarrow> (error + AudioGenerationResult) \<times> (nat \<times> event) list" where
  "generateAudio_loop env formatted [] i lastError =
     (Inl (TTSServiceError
             (''All TTS providers failed. Last error: '' @
                (case lastError of
                   None \<Rightarrow> ''Unknown error''
                 | Some e \<Rightarrow> if message e = [] then ''Unknown error'' else message e))
             ''ALL_PROVIDERS_FAILED''),
      [])"
| "generateAudio_loop env formatted (p # ps) i lastError =
     (case generateWithRetry p (formatted_text formatted) of
        (Inr audio, t) \<Rightarrow>
          (Inr \<lparr> audioBuffer = audio, provider = name p, voice = voiceUsed env p,
                 duration = estimatedDuration formatted, sizeBytes = length audio \<rparr>,
           tag i t)
      | (Inl e, t) \<Rightarrow>
          prepend (tag i t) (generateAudio_loop env formatted ps (Suc i) (Some e)))"

definition generateAudio ::
  "(string \<Rightarrow> string) \<Rightarrow> process_env \<Rightarrow> TTSProvider list \<Rightarrow> RedditPost
     \<Rightarrow> (error + AudioGenerationResult) \<times> (nat \<times> event) list" where
  "generateAudio cleanMarkdown env providers p =
     generateAudio_loop env (formatForTTS cleanMarkdown p) providers 0 None"

text \<open>
  \<open>initializeProviders\<close>: a provider whose constructor throws is left out, and the service
  cannot be built without any.
\<close>

definition initializeProviders ::
  "error + TTSProvider \<Rightarrow> error + TTSProvider \<Rightarrow> error + TTSProvider list" where
  "initializeProviders elevenLabs inworld =
     (let providers = (case elevenLabs of Inr p \<Rightarrow> [p] | Inl e \<Rightarrow> [])
                      @ (case inworld of Inr p \<Rightarrow> [p] | Inl e \<Rightarrow> [])
      in if length providers = 0
         then Inl (TTSServiceError
                ''No TTS providers configured. Please set ELEVENLABS_API_KEY or INWORLD_API_KEY.''
                ''NO_PROVIDERS'')
         else Inr providers)"

text \<open>
  Two providers for the examples: one that reports unavailable at every probe, and one that
  is available and answers the calls of \<open>generateSpeech\<close> from a script.
\<close>

definition down_provider :: "string \<Rightarrow> TTSProvider" where
  "down_provider n = \<lparr> name = n, generateSpeech = (\<lambda>txt k. Inr []), isAvailable = (\<lambda>k. False) \<rparr>"

definition scripted_provider :: "string \<Rightarrow> (error + Buffer) list \<Rightarrow> TTSProvider" where
  "scripted_provider n script =
     \<lparr> name = n,
       generateSpeech = (\<lambda>txt k. if k < length script then script ! k
                                   else Inl (Error ''no response'')),
       isAvailable = (\<lambda>k. True) \<rparr>"

definition no_cleaning :: "string \<Rightarrow> string" where
  "no_cleaning s = s"

definition default_env :: process_env where
  "default_env = \<lparr> ELEVENLABS_VOICE_ID = None, INWORLD_CHARACTER_ID = None \<rparr>"

text \<open>
  An authentication failure in a trace, and the number of calls of \<open>generateSpeech\<close> that a
  trace holds for the provider of index \<open>i\<close>.
\<close>

fun auth_event :: "event \<Rightarrow> bool" where
  "auth_event (Synthesize (Inl e)) = authFailure e"
| "auth_event ev = False"

definition synth_calls :: "nat \<Rightarrow> (nat \<times> event) list \<Rightarrow> nat" where
  "synth_calls i t = length (filter (\<lambda>(k, ev). k = i \<and> (\<exists>res. ev = Synthesize res)) t)"

text \<open>
  The trace of one run of the retry loop is settled when an authentication failure, if
  there is one, is its last event and the error the loop throws.
\<close>

definition settled :: "error + Buffer \<Rightarrow> event list \<Rightarrow> bool" where
  "settled r t =
     ((\<forall>ev\<in>set t. \<not> auth_event ev)
      \<or> (\<exists>t0 e. t = t0 @ [Synthesize (Inl e)] \<and> (\<forall>ev\<in>set t0. \<not> auth_event ev)
                 \<and> authFailure e \<and> r = Inl e))"

subsection \<open>Authentication failures end the attempts on a provider\<close>

lemma on_catch_Rethrow: "(on_catch e a = Rethrow) = authFailure e"
  by (simp add: on_catch_def authFailure_def)

lemma on_catch_Retry:
  "on_catch e a = Retry ws \<Longrightarrow> \<not> authFailure e \<and> (ws = [] \<or> (\<exists>d. ws = [Wait d]))"
  by (auto simp: on_catch_def authFailure_def waitWithBackoff_def split: if_splits)

lemma prepend_eq: "(prepend es rt = (r, t)) = (\<exists>t'. rt = (r, t') \<and> t = es @ t')"
  by (cases rt) (auto simp: prepend_def)

lemma settled_prepend:
  assumes "settled r t" and "\<forall>ev\<in>set es. \<not> auth_event ev"
  shows "settled r (es @ t)"
proof -
  from assms(1) consider "\<forall>ev\<in>set t. \<not> auth_event ev"
    | t0 e where "t = t0 @ [Synthesize (Inl e)]" "\<forall>ev\<in>set t0. \<not> auth_event ev"
        "authFailure e" "r = Inl e"
    unfolding settled_def by blast
  then show ?thesis
  proof cases
    case 1
    then show ?thesis using assms(2) by (auto simp: settled_def)
  next
    case 2
    then have "es @ t = (es @ t0) @ [Synthesize (Inl e)]" by simp
    moreover have "\<forall>ev\<in>set (es @ t0). \<not> auth_event ev" using 2 assms(2) by auto
    ultimately show ?thesis unfolding settled_def using 2(3,4) by blast
  qed
qed

lemma generateWithRetry_loop_settled:
  "generateWithRetry_loop p tx attempt probes calls lastError = (r, t) \<Longrightarrow> settled r t"
proof (induction p tx attempt probes calls lastError arbitrary: r t
    rule: generateWithRetry_loop.induct)
  case (1 p tx attempt probes calls lastError)
  let ?down = "Error (''Provider '' @ name p @ '' is not available'')"
  note eq = "1.prems"[unfolded generateWithRetry_loop.simps[of p tx attempt probes calls lastError]]
  show ?case
  proof (cases "attempt \<le> maxAttempts")
    case False
    then have "t = []" using eq by simp
    then show ?thesis by (simp add: settled_def)
  next
    case le: True
    show ?thesis
    proof (cases "isAvailable p probes")
      case False
      have "on_catch ?down attempt \<noteq> Rethrow"
        by (simp add: on_catch_Rethrow authFailure_def)
      then obtain ws where ws: "on_catch ?down attempt = Retry ws"
        by (cases "on_catch ?down attempt") auto
      obtain t' where
        rec: "generateWithRetry_loop p tx (Suc attempt) (Suc probes) calls (Some ?down) = (r, t')"
        and t: "t = (Probe False # ws) @ t'"
        using eq le False ws by (auto simp: prepend_eq)
      have "\<forall>ev\<in>set (Probe False # ws). \<not> auth_event ev"
        using on_catch_Retry[OF ws] by auto
      from settled_prepend[OF "1.IH"(1)[OF le False ws rec] this]
      show ?thesis using t by simp
    next
      case True
      show ?thesis
      proof (cases "generateSpeech p tx calls")
        case (Inr audio)
        then have "t = [Probe True, Synthesize (Inr audio)]" using eq le True by auto
        then show ?thesis by (simp add: settled_def)
      next
        case (Inl e)
        show ?thesis
        proof (cases "on_catch e attempt")
          case Rethrow
          then have "authFailure e" using on_catch_Rethrow[of e attempt] by simp
          moreover have "r = Inl e" "t = [Probe True] @ [Synthesize (Inl e)]"
            using eq le True Inl Rethrow by auto
          ultimately show ?thesis unfolding settled_def
            by (intro disjI2 exI[of _ "[Probe True]"] exI[of _ e]) simp
        next
          case (Retry ws)
          obtain t' where
            rec: "generateWithRetry_loop p tx (Suc attempt) (Suc probes) (Suc calls) (Some e) = (r, t')"
            and t: "t = (Probe True # Synthesize (Inl e) # ws) @ t'"
            using eq le True Inl Retry by (auto simp: prepend_eq)
          have nn: "\<not> \<not> isAvailable p probes" using True by simp
          have "\<forall>ev\<in>set (Probe True # Synthesize (Inl e) # ws). \<not> auth_event ev"
            using on_catch_Retry[OF Retry] by auto
          from settled_prepend[OF "1.IH"(2)[OF le nn Inl Retry rec] this]
          show ?thesis using t by simp
        qed
      qed
    qed
  qed
qed

lemma settled_split:
  assumes "settled r t" and "t = pre @ Synthesize (Inl e) # rest" and "authFailure e"
  shows "rest = [] \<and> r = Inl e"
proof -
  have "auth_event (Synthesize (Inl e))" using assms(3) by simp
  then have "\<not> (\<forall>ev\<in>set t. \<not> auth_event ev)" using assms(2) by auto
  then obtain t0 e' where t0: "t = t0 @ [Synthesize (Inl e')]"
    "\<forall>ev\<in>set t0. \<not> auth_event ev" "r = Inl e'"
    using assms(1) unfolding settled_def by blast
  show ?thesis
  proof (cases rest rule: rev_cases)
    case Nil
    then show ?thesis using t0 assms(2) by simp
  next
    case (snoc rest' x)
    then have "t0 = pre @ Synthesize (Inl e) # rest'" using t0(1) assms(2) by simp
    then have "auth_event (Synthesize (Inl e)) \<Longrightarrow> False" using t0(2) by auto
    then show ?thesis using assms(3) by simp
  qed
qed

lemma generateWithRetry_starts_with_probe:
  "generateWithRetry p txt = (r, t) \<Longrightarrow> \<exists>b t'. t = Probe b # t'"
  unfolding generateWithRetry_def
  by (subst (asm) generateWithRetry_loop.simps)
     (auto simp: maxAttempts_def prepend_eq split: if_splits sum.splits caught.splits)

lemma tag_split:
  assumes "tag i t = pre @ (j, ev) # rest"
  shows "j = i \<and> t = map snd pre @ ev # map snd rest \<and> rest = tag i (map snd rest)"
proof -
  have "map snd (tag i t) = t" by (simp add: tag_def comp_def)
  then have t: "t = map snd pre @ ev # map snd rest" using assms by (metis list.simps(9) map_append snd_conv)
  have "(j, ev) \<in> set (tag i t)" using assms by simp
  then have j: "j = i" by (auto simp: tag_def)
  have "\<forall>x\<in>set rest. fst x = i"
  proof
    fix x assume "x \<in> set rest"
    then have "x \<in> set (tag i t)" using assms by simp
    then show "fst x = i" by (auto simp: tag_def)
  qed
  then have "rest = tag i (map snd rest)"
    by (induction rest) (auto simp: tag_def)
  then show ?thesis using t j by simp
qed

lemma generateAudio_loop_indices:
  "generateAudio_loop env f ps i le = (r, t) \<Longrightarrow> (k, ev) \<in> set t \<Longrightarrow> i \<le> k \<and> k < i + length ps"
proof (induction ps arbitrary: i le r t)
  case Nil
  then show ?case by simp
next
  case (Cons p ps)
  obtain r1 t1 where g: "generateWithRetry p (formatted_text f) = (r1, t1)"
    by (cases "generateWithRetry p (formatted_text f)") auto
  show ?case
  proof (cases r1)
    case (Inr audio)
    then have "t = tag i t1" using Cons.prems(1) g by simp
    then show ?thesis using Cons.prems(2) by (auto simp: tag_def)
  next
    case (Inl e)
    then obtain t2 where rec: "generateAudio_loop env f ps (Suc i) (Some e) = (r, t2)"
      and t: "t = tag i t1 @ t2"
      using Cons.prems(1) g by (auto simp: prepend_eq)
    from Cons.prems(2) t have "(k, ev) \<in> set (tag i t1) \<or> (k, ev) \<in> set t2" by simp
    then show ?thesis
    proof
      assume "(k, ev) \<in> set (tag i t1)"
      then show ?thesis by (auto simp: tag_def)
    next
      assume "(k, ev) \<in> set t2"
      from Cons.IH[OF rec this] show ?thesis by simp
    qed
  qed
qed

lemma generateAudio_loop_starts:
  "generateAudio_loop env f (p # ps) i le = (r, t) \<Longrightarrow> \<exists>b t'. t = (i, Probe b) # t'"
proof -
  assume a: "generateAudio_loop env f (p # ps) i le = (r, t)"
  obtain r1 t1 where g: "generateWithRetry p (formatted_text f) = (r1, t1)"
    by (cases "generateWithRetry p (formatted_text f)") auto
  from generateWithRetry_starts_with_probe[OF g] obtain b t' where "t1 = Probe b # t'" by blast
  then show ?thesis using a g by (cases r1) (auto simp: tag_def prepend_eq)
qed

lemma generateAudio_loop_auth:
  assumes "generateAudio_loop env f ps i le = (r, t)"
    and "t = pre @ (j, Synthesize (Inl e)) # rest"
    and "authFailure e"
  shows "i \<le> j \<and> j < i + length ps
       \<and> (\<forall>(k, ev) \<in> set rest. j < k)
       \<and> (Suc j < i + length ps \<longrightarrow> (\<exists>b rest'. rest = (Suc j, Probe b) # rest'))
       \<and> (Suc j = i + length ps \<longrightarrow>
            rest = [] \<and> (\<exists>m. r = Inl (TTSServiceError m ''ALL_PROVIDERS_FAILED'')))"
  using assms
proof (induction ps arbitrary: i le r t pre)
  case Nil
  then show ?case by simp
next
  case (Cons p ps)
  obtain r1 t1 where g: "generateWithRetry p (formatted_text f) = (r1, t1)"
    by (cases "generateWithRetry p (formatted_text f)") auto
  have st: "settled r1 t1"
    using g generateWithRetry_loop_settled unfolding generateWithRetry_def by blast
  show ?case
  proof (cases r1)
    case (Inr audio)
    then have "tag i t1 = pre @ (j, Synthesize (Inl e)) # rest"
      using Cons.prems(1,2) g by simp
    from tag_split[OF this] have "t1 = map snd pre @ Synthesize (Inl e) # map snd rest" by simp
    from settled_split[OF st this Cons.prems(3)] show ?thesis using Inr by simp
  next
    case (Inl e1)
    then obtain t2 where rec: "generateAudio_loop env f ps (Suc i) (Some e1) = (r, t2)"
      and t: "t = tag i t1 @ t2"
      using Cons.prems(1) g by (auto simp: prepend_eq)
    from t Cons.prems(2) have "tag i t1 @ t2 = pre @ (j, Synthesize (Inl e)) # rest" by simp
    then consider us where "tag i t1 = pre @ (j, Synthesize (Inl e)) # us" "rest = us @ t2"
      | us where "pre = tag i t1 @ us" "t2 = us @ (j, Synthesize (Inl e)) # rest"
      by (auto simp: append_eq_append_conv2 append_eq_Cons_conv Cons_eq_append_conv)
    then show ?thesis
    proof cases
      case 1
      from tag_split[OF 1(1)] have j: "j = i"
        and t1: "t1 = map snd pre @ Synthesize (Inl e) # map snd us"
        and us: "us = tag i (map snd us)" by simp_all
      from settled_split[OF st t1 Cons.prems(3)] have "map snd us = []" by simp
      then have rest: "rest = t2" using 1(2) by simp
      have after: "\<forall>(k, ev) \<in> set rest. j < k"
      proof (clarify)
        fix k ev assume "(k, ev) \<in> set rest"
        then have "(k, ev) \<in> set t2" using rest by simp
        from generateAudio_loop_indices[OF rec this] show "j < k" using j by simp
      qed
      show ?thesis
      proof (cases ps)
        case Nil
        then have "t2 = []" and "\<exists>m. r = Inl (TTSServiceError m ''ALL_PROVIDERS_FAILED'')"
          using rec by auto
        then show ?thesis using Nil rest j by simp
      next
        case (Cons q qs)
        then obtain b t' where "t2 = (Suc i, Probe b) # t'"
          using generateAudio_loop_starts rec by blast
        then show ?thesis using rest j after Cons by simp
      qed
    next
      case 2
      from Cons.IH[OF rec 2(2) Cons.prems(3)] show ?thesis by auto
    qed
  qed
qed

subsection \<open>The claims on retry and failover\<close>

lemmas retry_defs = generateWithRetry_def generateWithRetry_loop.simps maxAttempts_def
  on_catch_def waitWithBackoff_def prepend_def initialDelayMs_def maxDelayMs_def
  backoffMultiplier_def

text \<open>
  Claim C2. Take any run of \<open>generateAudio\<close> and any call of \<open>generateSpeech\<close> in its trace
  that failed with status 401 or 403 (an \<open>ElevenLabsError\<close> or \<open>InworldError\<close>), on the
  provider of index \<open>i\<close>. Every later event belongs to a later provider: provider \<open>i\<close> sees
  no further probe, call or wait. When another provider follows, the very next event is
  that provider's first probe. When \<open>i\<close> is the last provider, and so when it is the only
  one, nothing follows and the run fails with \<open>ALL_PROVIDERS_FAILED\<close>.
\<close>

theorem auth_failure_is_not_retried:
  assumes "generateAudio clean env providers p = (r, t)"
    and "t = pre @ (i, Synthesize (Inl e)) # rest"
    and "authFailure e"
  shows "i < length providers
       \<and> (\<forall>(k, ev) \<in> set rest. i < k)
       \<and> (Suc i < length providers \<longrightarrow> (\<exists>b rest'. rest = (Suc i, Probe b) # rest'))
       \<and> (Suc i = length providers \<longrightarrow>
            rest = [] \<and> (\<exists>m. r = Inl (TTSServiceError m ''ALL_PROVIDERS_FAILED'')))"
  using generateAudio_loop_auth[OF assms(1)[unfolded generateAudio_def] assms(2,3)] by simp

theorem auth_failure_is_not_retried_witness:
  "generateAudio no_cleaning default_env
     [scripted_provider ''elevenlabs'' [Inl (ElevenLabsError ''Unauthorized'' 401), Inr [7]],
      scripted_provider ''inworld'' [Inr [1, 2, 3]]] (createMockPost 0)
   = (Inr \<lparr> audioBuffer = [1, 2, 3], provider = ''inworld'', voice = ''narrator_01'',
            duration = estimatedDuration (formatForTTS no_cleaning (createMockPost 0)),
            sizeBytes = 3 \<rparr>,
      [(0, Probe True), (0, Synthesize (Inl (ElevenLabsError ''Unauthorized'' 401))),
       (1, Probe True), (1, Synthesize (Inr [1, 2, 3]))])
   \<and> (\<exists>b rest'. [(1, Probe True), (1, Synthesize (Inr [1, 2, 3]))] = (Suc 0, Probe b) # rest')"
proof -
  let ?ps = "[scripted_provider ''elevenlabs'' [Inl (ElevenLabsError ''Unauthorized'' 401), Inr [7]],
      scripted_provider ''inworld'' [Inr [1, 2, 3]]]"
  let ?r = "Inr \<lparr> audioBuffer = [1, 2, 3], provider = ''inworld'', voice = ''narrator_01'',
            duration = estimatedDuration (formatForTTS no_cleaning (createMockPost 0)),
            sizeBytes = 3 \<rparr>"
  let ?rest = "[(1::nat, Probe True), (1, Synthesize (Inr [1, 2, 3]))]"
  have run: "generateAudio no_cleaning default_env ?ps (createMockPost 0)
      = (?r, [(0, Probe True)] @ (0, Synthesize (Inl (ElevenLabsError ''Unauthorized'' 401))) # ?rest)"
    by (simp add: generateAudio_def retry_defs scripted_provider_def tag_def voiceUsed_def
        INWORLD_CONFIG_character_def env_or_def default_env_def)
  have auth: "authFailure (ElevenLabsError ''Unauthorized'' 401)"
    by (simp add: authFailure_def)
  from auth_failure_is_not_retried[OF run refl auth]
  have "\<exists>b rest'. ?rest = (Suc 0, Probe b) # rest'" by simp
  then show ?thesis using run by simp
qed

text \<open>
  Claim C8. The first provider is available at its three probes, its first two calls of
  \<open>generateSpeech\<close> fail, with errors that the retry policy retries (any error but status
  401 or 403), and the third returns audio. Then \<open>generateAudio\<close> returns that audio under
  the first provider's name. The trace holds exactly three calls of \<open>generateSpeech\<close>, all
  on provider 0, with one backoff wait after each failure, and no event of a later provider.
\<close>

theorem third_attempt_succeeds:
  assumes "isAvailable q 0" and "isAvailable q 1" and "isAvailable q 2"
    and "generateSpeech q (formatted_text (formatForTTS clean p)) 0 = Inl e1"
    and "\<not> authFailure e1"
    and "generateSpeech q (formatted_text (formatForTTS clean p)) 1 = Inl e2"
    and "\<not> authFailure e2"
    and "generateSpeech q (formatted_text (formatForTTS clean p)) 2 = Inr audio"
  shows "generateAudio clean env (q # qs) p =
      (Inr \<lparr> audioBuffer = audio, provider = name q, voice = voiceUsed env q,
              duration = estimatedDuration (formatForTTS clean p), sizeBytes = length audio \<rparr>,
       [(0, Probe True), (0, Synthesize (Inl e1)),
        (0, Wait (if statusCode e1 = Some 429 then 2000 else 1000)),
        (0, Probe True), (0, Synthesize (Inl e2)),
        (0, Wait (if statusCode e2 = Some 429 then 4000 else 2000)),
        (0, Probe True), (0, Synthesize (Inr audio))])
    \<and> synth_calls 0 (snd (generateAudio clean env (q # qs) p)) = 3
    \<and> (\<forall>(k, ev) \<in> set (snd (generateAudio clean env (q # qs) p)). k = 0)"
proof -
  have "generateWithRetry q (formatted_text (formatForTTS clean p)) =
      (Inr audio,
       [Probe True, Synthesize (Inl e1),
        Wait (if statusCode e1 = Some 429 then 2000 else 1000),
        Probe True, Synthesize (Inl e2),
        Wait (if statusCode e2 = Some 429 then 4000 else 2000),
        Probe True, Synthesize (Inr audio)])"
    using assms by (simp add: retry_defs authFailure_def numeral_2_eq_2)
  then have run: "generateAudio clean env (q # qs) p =
      (Inr \<lparr> audioBuffer = audio, provider = name q, voice = voiceUsed env q,
              duration = estimatedDuration (formatForTTS clean p), sizeBytes = length audio \<rparr>,
       [(0, Probe True), (0, Synthesize (Inl e1)),
        (0, Wait (if statusCode e1 = Some 429 then 2000 else 1000)),
        (0, Probe True), (0, Synthesize (Inl e2)),
        (0, Wait (if statusCode e2 = Some 429 then 4000 else 2000)),
        (0, Probe True), (0, Synthesize (Inr audio))])"
    by (simp add: generateAudio_def tag_def)
  show ?thesis unfolding run by (simp add: synth_calls_def)
qed

theorem third_attempt_succeeds_witness:
  "generateAudio no_cleaning default_env
     [scripted_provider ''elevenlabs''
        [Inl (ElevenLabsError ''Internal Server Error'' 500),
         Inl (ElevenLabsError ''Too Many Requests'' 429), Inr [1, 2, 3]],
      scripted_provider ''inworld'' [Inr [9]]] (createMockPost 0)
   = (Inr \<lparr> audioBuffer = [1, 2, 3], provider = ''elevenlabs'', voice = ''21m00Tcm4TlvDq8ikWAM'',
            duration = estimatedDuration (formatForTTS no_cleaning (createMockPost 0)),
            sizeBytes = 3 \<rparr>,
      [(0, Probe True), (0, Synthesize (Inl (ElevenLabsError ''Internal Server Error'' 500))),
       (0, Wait 1000),
       (0, Probe True), (0, Synthesize (Inl (ElevenLabsError ''Too Many Requests'' 429))),
       (0, Wait 4000),
       (0, Probe True), (0, Synthesize (Inr [1, 2, 3]))])"
proof -
  let ?q = "scripted_provider ''elevenlabs''
        [Inl (ElevenLabsError ''Internal Server Error'' 500),
         Inl (ElevenLabsError ''Too Many Requests'' 429), Inr [1, 2, 3]]"
  have a: "isAvailable ?q 0" "isAvailable ?q 1" "isAvailable ?q 2"
    by (simp_all add: scripted_provider_def)
  have s: "generateSpeech ?q tx 0 = Inl (ElevenLabsError ''Internal Server Error'' 500)"
     "generateSpeech ?q tx 1 = Inl (ElevenLabsError ''Too Many Requests'' 429)"
     "generateSpeech ?q tx 2 = Inr [1, 2, 3]" for tx
    by (simp_all add: scripted_provider_def)
  have n: "\<not> authFailure (ElevenLabsError ''Internal Server Error'' 500)"
    "\<not> authFailure (ElevenLabsError ''Too Many Requests'' 429)"
    by (simp_all add: authFailure_def)
  from third_attempt_succeeds[OF a s(1) n(1) s(2) n(2) s(3),
      where env = default_env and qs = "[scripted_provider ''inworld'' [Inr [9]]]"
        and clean = no_cleaning and p = "createMockPost 0"]
  show ?thesis
    by (simp add: voiceUsed_def scripted_provider_def ELEVENLABS_CONFIG_voiceId_def env_or_def
        default_env_def)
qed

text \<open>
  Claim C3 as stated fails. The first provider reports unavailable at every probe and the
  second works. \<open>generateAudio\<close> probes the first provider three times and waits 1000 ms
  and 2000 ms in between before it turns to the second: \<open>generateWithRetry\<close> throws
  "is not available" inside its \<open>try\<close>, and its \<open>catch\<close> treats that like any failed attempt.
\<close>

theorem unavailable_provider_waits:
  "generateAudio no_cleaning default_env
     [down_provider ''elevenlabs'', scripted_provider ''inworld'' [Inr [1, 2, 3]]]
     (createMockPost 0)
   = (Inr \<lparr> audioBuffer = [1, 2, 3], provider = ''inworld'', voice = ''narrator_01'',
            duration = estimatedDuration (formatForTTS no_cleaning (createMockPost 0)),
            sizeBytes = 3 \<rparr>,
      [(0, Probe False), (0, Wait 1000), (0, Probe False), (0, Wait 2000), (0, Probe False),
       (1, Probe True), (1, Synthesize (Inr [1, 2, 3]))])"
  by (simp add: generateAudio_def retry_defs scripted_provider_def down_provider_def tag_def
      voiceUsed_def INWORLD_CONFIG_character_def env_or_def default_env_def)

text \<open>
  Claim C3, amended. An attempt whose probe answers \<open>false\<close> makes no call of
  \<open>generateSpeech\<close>, and it counts as a failed attempt: the loop waits the backoff of that
  attempt when an attempt is left, and goes on to the next attempt on the same provider.
  A provider that answers \<open>false\<close> at all three probes costs three probes and two waits,
  1000 ms and 2000 ms, and no call; only then does \<open>generateAudio\<close> turn to the providers
  that follow.
\<close>

theorem unavailable_provider_is_retried:
  "(attempt \<le> maxAttempts \<and> \<not> isAvailable q probes \<longrightarrow>
      generateWithRetry_loop q tx attempt probes calls lastError
      = prepend (Probe False # (if attempt < maxAttempts then [waitWithBackoff attempt] else []))
          (generateWithRetry_loop q tx (Suc attempt) (Suc probes) calls
             (Some (Error (''Provider '' @ name q @ '' is not available'')))))
   \<and> (\<not> isAvailable q 0 \<and> \<not> isAvailable q 1 \<and> \<not> isAvailable q 2 \<longrightarrow>
      generateAudio clean env (q # qs) p
      = prepend [(0, Probe False), (0, Wait 1000), (0, Probe False), (0, Wait 2000),
                 (0, Probe False)]
          (generateAudio_loop env (formatForTTS clean p) qs 1
             (Some (Error (''Provider '' @ name q @ '' is not available'')))))"
proof (intro conjI impI)
  assume "attempt \<le> maxAttempts \<and> \<not> isAvailable q probes"
  then show "generateWithRetry_loop q tx attempt probes calls lastError
      = prepend (Probe False # (if attempt < maxAttempts then [waitWithBackoff attempt] else []))
          (generateWithRetry_loop q tx (Suc attempt) (Suc probes) calls
             (Some (Error (''Provider '' @ name q @ '' is not available''))))"
    by (subst generateWithRetry_loop.simps) (simp add: on_catch_def)
next
  assume "\<not> isAvailable q 0 \<and> \<not> isAvailable q 1 \<and> \<not> isAvailable q 2"
  then have "generateWithRetry q (formatted_text (formatForTTS clean p))
     = (Inl (Error (''Provider '' @ name q @ '' is not available'')),
        [Probe False, Wait 1000, Probe False, Wait 2000, Probe False])"
    by (simp add: retry_defs numeral_2_eq_2)
  then show "generateAudio clean env (q # qs) p
      = prepend [(0, Probe False), (0, Wait 1000), (0, Probe False), (0, Wait 2000),
                 (0, Probe False)]
          (generateAudio_loop env (formatForTTS clean p) qs 1
             (Some (Error (''Provider '' @ name q @ '' is not available''))))"
    by (simp add: generateAudio_def tag_def)
qed

theorem unavailable_provider_is_retried_witness:
  "generateAudio no_cleaning default_env [down_provider ''elevenlabs''] (createMockPost 0)
   = (Inl (TTSServiceError
             ''All TTS providers failed. Last error: Provider elevenlabs is not available''
             ''ALL_PROVIDERS_FAILED''),
      [(0, Probe False), (0, Wait 1000), (0, Probe False), (0, Wait 2000), (0, Probe False)])"
proof -
  have "\<not> isAvailable (down_provider ''elevenlabs'') 0 \<and> \<not> isAvailable (down_provider ''elevenlabs'') 1
      \<and> \<not> isAvailable (down_provider ''elevenlabs'') 2"
    by (simp add: down_provider_def)
  from unavailable_provider_is_retried[where clean = no_cleaning and env = default_env
      and qs = "[]" and p = "createMockPost 0" and q = "down_provider ''elevenlabs''",
      THEN conjunct2, THEN mp, OF this]
  show ?thesis by (simp add: prepend_def down_provider_def)
qed



section \<open>Storage and orchestration\<close>

text \<open>
  The rows of \<open>types/database.ts\<close>. Fields whose names the posts already use carry the
  prefix \<open>sp_\<close> or \<open>af_\<close>; \<open>audio_file_id\<close> is \<open>string | null\<close>.
\<close>

record SelectedPost =
  sp_id :: string
  reddit_post_id :: string
  sp_subreddit :: string
  sp_title :: string
  sp_selftext :: "string option"
  sp_score :: real
  sp_num_comments :: real
  sp_author :: string
  sp_created_utc :: string
  selection_score :: real
  audio_file_id :: "string option"
  sp_created_at :: string

record AudioFile =
  af_id :: string
  file_url :: string
  duration_seconds :: int
  file_size_bytes :: nat
  format :: string
  tts_provider :: string
  voice_used :: string
  af_created_at :: string

text \<open>
  The store is an external service. A call of the Supabase client resolves to a pair of
  \<open>data\<close> and \<open>error\<close>, the error with a code and a message, or it throws. The replies are
  inputs of the model: the statements below hold whatever the store answers.
\<close>

datatype pg_error = PgError string string

fun pg_code :: "pg_error \<Rightarrow> string" where
  "pg_code (PgError c m) = c"

fun pg_message :: "pg_error \<Rightarrow> string" where
  "pg_message (PgError c m) = m"

datatype 'a reply = Reply "'a option" "pg_error option" | Threw error

text \<open>
  The \<open>catch\<close> block that ends every method of the storage service: a \<open>StorageError\<close> is
  thrown again, anything else is wrapped in one.
\<close>

definition storage_catch :: "string \<Rightarrow> string \<Rightarrow> error \<Rightarrow> error" where
  "storage_catch prefix code e =
     (case e of
        StorageError m c \<Rightarrow> e
      | _ \<Rightarrow> StorageError (prefix @ message e) code)"

text \<open>
  \<open>new Date(t).toISOString()\<close> throws a \<open>RangeError\<close> when \<open>t\<close>, a number of milliseconds,
  lies more than 8.64e15 away from zero: the date is invalid then. The message is that of
  V8, "Invalid time value".
\<close>

definition valid_time :: "real \<Rightarrow> bool" where
  "valid_time t = (\<bar>double t\<bar> \<le> 8640000000000000)"

text \<open>
  \<open>saveSelectedPost\<close> builds the row, where the creation time of the post is turned into a
  date, before it calls the store; both steps are inside the \<open>try\<close> block. The client is
  taken to be configured: \<open>getClient\<close> returns.
\<close>

definition saveSelectedPost ::
  "RedditPost \<Rightarrow> PostScore \<Rightarrow> SelectedPost reply \<Rightarrow> error + SelectedPost" where
  "saveSelectedPost p sc r =
     (if \<not> valid_time (created_utc p * 1000)
      then Inl (storage_catch ''Database error: '' ''DB_ERROR'' (Error ''Invalid time value''))
      else
        (case r of
           Threw e \<Rightarrow> Inl (storage_catch ''Database error: '' ''DB_ERROR'' e)
         | Reply d (Some err) \<Rightarrow>
             (if pg_code err = ''23505''
              then Inl (StorageError (''Post '' @ post_id p @ '' has already been selected'')
                          ''DUPLICATE_POST'')
              else Inl (StorageError (''Failed to save selected post: '' @ pg_message err)
                          ''DB_INSERT_ERROR''))
         | Reply None None \<Rightarrow> Inl (StorageError ''No data returned from insert'' ''NO_DATA'')
         | Reply (Some row) None \<Rightarrow> Inr row))"

definition getSelectedPostByRedditId :: "SelectedPost reply \<Rightarrow> error + SelectedPost option" where
  "getSelectedPostByRedditId r =
     (case r of
        Threw e \<Rightarrow> Inl (storage_catch ''Database error: '' ''DB_ERROR'' e)
      | Reply d (Some err) \<Rightarrow>
          (if pg_code err = ''PGRST116'' then Inr None
           else Inl (StorageError (''Failed to get selected post: '' @ pg_message err)
                       ''DB_SELECT_ERROR''))
      | Reply d None \<Rightarrow> Inr d)"

record AudioUploadResult =
  audioFileId :: string
  publicUrl :: string
  fileSize :: nat

definition uploadAudioFile ::
  "Buffer \<Rightarrow> string reply \<Rightarrow> string option \<Rightarrow> error + AudioUploadResult" where
  "uploadAudioFile audio r urlData =
     (case r of
        Threw e \<Rightarrow> Inl (storage_catch ''Storage error: '' ''STORAGE_ERROR'' e)
      | Reply d (Some err) \<Rightarrow>
          Inl (StorageError (''Failed to upload audio file: '' @ pg_message err) ''UPLOAD_ERROR'')
      | Reply None None \<Rightarrow> Inl (StorageError ''No upload data returned'' ''NO_DATA'')
      | Reply (Some path) None \<Rightarrow>
          (case urlData of
             None \<Rightarrow> Inl (StorageError ''Failed to get public URL'' ''URL_ERROR'')
           | Some url \<Rightarrow>
               Inr \<lparr> audioFileId = path, publicUrl = url, fileSize = length audio \<rparr>))"

record audio_data =
  data_fileUrl :: string
  data_durationSeconds :: int
  data_fileSizeBytes :: nat
  data_format :: string
  data_ttsProvider :: string
  data_voiceUsed :: string

definition saveAudioFile :: "audio_data \<Rightarrow> AudioFile reply \<Rightarrow> error + AudioFile" where
  "saveAudioFile audioData r =
     (case r of
        Threw e \<Rightarrow> Inl (storage_catch ''Database error: '' ''DB_ERROR'' e)
      | Reply d (Some err) \<Rightarrow>
          Inl (StorageError (''Failed to save audio file: '' @ pg_message err) ''DB_INSERT_ERROR'')
      | Reply None None \<Rightarrow> Inl (StorageError ''No data returned from insert'' ''NO_DATA'')
      | Reply (Some row) None \<Rightarrow> Inr row)"

definition linkAudioToPost :: "unit reply \<Rightarrow> error + unit" where
  "linkAudioToPost r =
     (case r of
        Threw e \<Rightarrow> Inl (storage_catch ''Database error: '' ''DB_ERROR'' e)
      | Reply d (Some err) \<Rightarrow>
          Inl (StorageError (''Failed to link audio to post: '' @ pg_message err) ''DB_UPDATE_ERROR'')
      | Reply d None \<Rightarrow> Inr ())"

text \<open>
  \<open>generateAudioFileName\<close>: the post, the provider and \<open>Date.now()\<close> in decimal digits.
\<close>

definition digit :: "nat \<Rightarrow> char" where
  "digit d = char_of (48 + d)"

function show_nat :: "nat \<Rightarrow> string" where
  "show_nat n = (if n < 10 then [digit n] else show_nat (n div 10) @ [digit (n mod 10)])"
  by pat_completeness auto
termination
  by (relation "measure id") auto

definition generateAudioFileName :: "string \<Rightarrow> string \<Rightarrow> nat \<Rightarrow> string" where
  "generateAudioFileName postId providerName timestamp =
     postId @ ''_'' @ providerName @ ''_'' @ show_nat timestamp @ ''.mp3''"

text \<open>
  Everything outside the orchestrator that one run of \<open>processPostToAudio\<close> consults: the
  engine's \<open>Math.log10\<close>, the clock, the replies of the store to each request, the
  providers and the process environment.
\<close>

record world =
  analyzer_log10 :: "real \<Rightarrow> real"
  analyzer_clock :: "nat \<Rightarrow> real"
  file_timestamp :: nat
  insert_selected_post :: "SelectedPost reply"
  select_selected_post :: "string \<Rightarrow> SelectedPost reply"
  tts_env :: process_env
  tts_providers :: "TTSProvider list"
  storage_upload :: "string reply"
  storage_public_url :: "string option"
  insert_audio_file :: "AudioFile reply"
  update_selected_post :: "unit reply"

text \<open>The calls a run makes on its collaborators, in order, with their arguments.\<close>

datatype call =
    SaveSelectedPost RedditPost PostScore
  | GetSelectedPostByRedditId string
  | GenerateAudio RedditPost
  | UploadAudioFile Buffer string string
  | SaveAudioFile audio_data
  | LinkAudioToPost string string

record PostToAudioResult =
  selectedPost :: SelectedPost
  audioFile :: AudioFile
  audioUrl :: string
  result_duration :: int

text \<open>
  \<open>if (existingPost.audio_file_id)\<close> tests the value for truthiness: not \<open>null\<close>, and not the
  empty string.
\<close>

definition truthy :: "string option \<Rightarrow> bool" where
  "truthy v = (case v of None \<Rightarrow> False | Some s \<Rightarrow> s \<noteq> [])"

text \<open>
  \<open>processPostToAudio\<close>, step by step as its comments number them. Step 2 saves the
  selected post; on a \<open>StorageError\<close> with code \<open>DUPLICATE_POST\<close> it looks the post up by
  its Reddit id. An error thrown by that lookup leaves the handler as it is and reaches the
  outer \<open>catch\<close>.
\<close>

definition persist_selected ::
  "world \<Rightarrow> PostScore \<Rightarrow> (error + SelectedPost) \<times> call list" where
  "persist_selected w bestPost =
     (case saveSelectedPost (post bestPost) bestPost (insert_selected_post w) of
        Inr savedPost \<Rightarrow> (Inr savedPost, [SaveSelectedPost (post bestPost) bestPost])
      | Inl err \<Rightarrow>
          (case err of
             StorageError m code \<Rightarrow>
               (if code = ''DUPLICATE_POST''
                then prepend [SaveSelectedPost (post bestPost) bestPost,
                              GetSelectedPostByRedditId (post_id (post bestPost))]
                  (case getSelectedPostByRedditId
                          (select_selected_post w (post_id (post bestPost))) of
                     Inl thrown \<Rightarrow> (Inl thrown, [])
                   | Inr None \<Rightarrow>
                       (Inl (OrchestrationError
                               ''Post marked as duplicate but not found in database''
                               ''POST_SAVE_FAILED'' (Some err)), [])
                   | Inr (Some existingPost) \<Rightarrow>
                       (if truthy (audio_file_id existingPost)
                        then (Inl (OrchestrationError
                                     ''Post has already been processed with audio''
                                     ''POST_ALREADY_PROCESSED'' (Some err)), [])
                        else (Inr existingPost, [])))
                else (Inl (OrchestrationError ''Failed to save selected post''
                             ''POST_SAVE_FAILED'' (Some err)),
                      [SaveSelectedPost (post bestPost) bestPost]))
           | _ \<Rightarrow>
               (Inl (OrchestrationError ''Failed to save selected post''
                       ''POST_SAVE_FAILED'' (Some err)),
                [SaveSelectedPost (post bestPost) bestPost])))"

text \<open>Steps 5 and 6, step 4, and step 3, each handing over to the next.\<close>

definition save_and_link ::
  "world \<Rightarrow> SelectedPost \<Rightarrow> AudioGenerationResult \<Rightarrow> AudioUploadResult
     \<Rightarrow> (error + PostToAudioResult) \<times> call list" where
  "save_and_link w savedPost audioResult uploadResult =
     (let audioData =
            \<lparr> data_fileUrl = publicUrl uploadResult,
              data_durationSeconds = duration audioResult,
              data_fileSizeBytes = fileSize uploadResult,
              data_format = ''mp3'',
              data_ttsProvider = provider audioResult,
              data_voiceUsed = voice audioResult \<rparr>
      in case saveAudioFile audioData (insert_audio_file w) of
           Inl e \<Rightarrow>
             (Inl (OrchestrationError ''Failed to save audio metadata''
                     ''METADATA_SAVE_FAILED'' (Some e)),
              [SaveAudioFile audioData])
         | Inr savedAudio \<Rightarrow>
             prepend [SaveAudioFile audioData,
                      LinkAudioToPost (sp_id savedPost) (af_id savedAudio)]
               (case linkAudioToPost (update_selected_post w) of
                  Inl e \<Rightarrow>
                    (Inl (OrchestrationError ''Failed to link audio to post''
                            ''LINK_FAILED'' (Some e)), [])
                | Inr u \<Rightarrow>
                    (Inr \<lparr> selectedPost = savedPost, audioFile = savedAudio,
                            audioUrl = publicUrl uploadResult,
                            result_duration = duration audioResult \<rparr>, [])))"

definition upload_and_store ::
  "world \<Rightarrow> PostScore \<Rightarrow> SelectedPost \<Rightarrow> AudioGenerationResult
     \<Rightarrow> (error + PostToAudioResult) \<times> call list" where
  "upload_and_store w bestPost savedPost audioResult =
     (let fileName = generateAudioFileName (post_id (post bestPost))
                       (provider audioResult) (file_timestamp w)
      in prepend [UploadAudioFile (audioBuffer audioResult) fileName ''audio/mpeg'']
           (case uploadAudioFile (audioBuffer audioResult) (storage_upload w)
                   (storage_public_url w) of
              Inl e \<Rightarrow>
                (Inl (OrchestrationError ''Failed to upload audio file'' ''UPLOAD_FAILED''
                        (Some e)), [])
            | Inr uploadResult \<Rightarrow> save_and_link w savedPost audioResult uploadResult))"

definition generate_and_store ::
  "(string \<Rightarrow> string) \<Rightarrow> world \<Rightarrow> PostScore \<Rightarrow> SelectedPost
     \<Rightarrow> (error + PostToAudioResult) \<times> call list" where
  "generate_and_store cleanMarkdown w bestPost savedPost =
     prepend [GenerateAudio (post bestPost)]
       (case fst (generateAudio cleanMarkdown (tts_env w) (tts_providers w) (post bestPost)) of
          Inl e \<Rightarrow>
            (Inl (OrchestrationError ''Failed to generate audio'' ''TTS_FAILED'' (Some e)), [])
        | Inr audioResult \<Rightarrow> upload_and_store w bestPost savedPost audioResult)"

text \<open>
  The outer \<open>catch\<close>: an \<open>OrchestrationError\<close> is thrown again, anything else is wrapped as
  \<open>UNEXPECTED_ERROR\<close>.
\<close>

definition wrap_unexpected :: "error \<Rightarrow> error" where
  "wrap_unexpected e =
     (case e of
        OrchestrationError m c cause \<Rightarrow> e
      | _ \<Rightarrow> OrchestrationError (''Unexpected error during processing: '' @ message e)
               ''UNEXPECTED_ERROR'' (Some e))"

definition processPostToAudio ::
  "(string \<Rightarrow> string) \<Rightarrow> world \<Rightarrow> RedditPost list
     \<Rightarrow> (error + PostToAudioResult) \<times> call list" where
  "processPostToAudio cleanMarkdown w posts =
     (if posts = []
      then (Inl (OrchestrationError ''No posts provided for processing'' ''EMPTY_POSTS_ARRAY''
                   None), [])
      else
        (case selectBestPost (analyzer_log10 w) (analyzer_clock w) posts of
           None \<Rightarrow>
             (Inl (OrchestrationError ''No valid posts found after analysis'' ''NO_VALID_POSTS''
                     None), [])
         | Some bestPost \<Rightarrow>
             (case persist_selected w bestPost of
                (Inl e, calls) \<Rightarrow> (Inl (wrap_unexpected e), calls)
              | (Inr savedPost, calls) \<Rightarrow>
                  prepend calls (generate_and_store cleanMarkdown w bestPost savedPost))))"

text \<open>\<open>isPostProcessed\<close>; the store answers the lookup of each Reddit id.\<close>

definition isPostProcessed :: "(string \<Rightarrow> SelectedPost reply) \<Rightarrow> string \<Rightarrow> bool" where
  "isPostProcessed store redditPostId =
     (case getSelectedPostByRedditId (store redditPostId) of
        Inl e \<Rightarrow> False
      | Inr selected \<Rightarrow>
          (case selected of
             None \<Rightarrow> False
           | Some row \<Rightarrow> audio_file_id row \<noteq> None))"

text \<open>
  A store for the examples: it holds one row, for the post of the tests, with the given
  audio reference; a store whose lookup fails; and a world in which the insert of the
  selected post violates the uniqueness constraint while everything else succeeds.
\<close>

definition example_row :: "string option \<Rightarrow> SelectedPost" where
  "example_row audio =
     \<lparr> sp_id = ''row-1'', reddit_post_id = ''test-id'', sp_subreddit = ''test'',
       sp_title = ''Test Post Title'', sp_selftext = None, sp_score = 100,
       sp_num_comments = 50, sp_author = ''testuser'',
       sp_created_utc = ''1969-12-31T23:00:00.000Z'', selection_score = 0.5,
       audio_file_id = audio, sp_created_at = ''2025-01-07T00:00:00.000Z'' \<rparr>"

definition example_audio_file :: AudioFile where
  "example_audio_file =
     \<lparr> af_id = ''audio-1'', file_url = ''https://storage.example/test-id.mp3'',
       duration_seconds = 8, file_size_bytes = 3, format = ''mp3'',
       tts_provider = ''elevenlabs'', voice_used = ''21m00Tcm4TlvDq8ikWAM'',
       af_created_at = ''2025-01-07T00:00:00.000Z'' \<rparr>"

definition example_store :: "string option \<Rightarrow> string \<Rightarrow> SelectedPost reply" where
  "example_store audio rid =
     (if rid = ''test-id'' then Reply (Some (example_row audio)) None
      else Reply None (Some (PgError ''PGRST116'' ''no rows'')))"

definition failing_store :: "string \<Rightarrow> SelectedPost reply" where
  "failing_store rid = Reply None (Some (PgError ''08006'' ''connection failure''))"

definition duplicate_world :: "string option \<Rightarrow> world" where
  "duplicate_world audio =
     \<lparr> analyzer_log10 = nearest_log10, analyzer_clock = fixed_clock 0,
       file_timestamp = 1736250000000,
       insert_selected_post = Reply None (Some (PgError ''23505'' ''duplicate key'')),
       select_selected_post = example_store audio,
       tts_env = default_env,
       tts_providers = [scripted_provider ''elevenlabs'' [Inr [1, 2, 3]]],
       storage_upload = Reply (Some ''test-id.mp3'') None,
       storage_public_url = Some ''https://storage.example/test-id.mp3'',
       insert_audio_file = Reply (Some example_audio_file) None,
       update_selected_post = Reply None None \<rparr>"


subsection \<open>Duplicate posts\<close>

lemma valid_timeI:
  assumes "\<bar>t\<bar> \<le> 8640000000000000"
  shows "valid_time t"
proof -
  have top: "double 8640000000000000 = 8640000000000000"
    using double_eqI[of 8640000000000000 52] by (simp add: double_eval)
  show ?thesis
  proof (cases "0 \<le> t")
    case True
    then have "0 \<le> double t" using double_mono[of 0 t] by simp
    moreover have "double t \<le> 8640000000000000"
      using double_mono[of t 8640000000000000] True assms top by simp
    ultimately show ?thesis by (simp add: valid_time_def)
  next
    case False
    then have n: "0 \<le> - t" by simp
    then have "0 \<le> double (- t)" using double_mono[of 0 "- t"] by simp
    moreover have "double (- t) \<le> 8640000000000000"
      using double_mono[of "- t" 8640000000000000] n assms top by simp
    ultimately show ?thesis by (simp add: valid_time_def double_minus)
  qed
qed

lemma saveSelectedPost_duplicate:
  assumes "valid_time (created_utc p * 1000)" and "pg_code err = ''23505''"
  shows "saveSelectedPost p sc (Reply d (Some err))
    = Inl (StorageError (''Post '' @ post_id p @ '' has already been selected'')
             ''DUPLICATE_POST'')"
  using assms by (simp add: saveSelectedPost_def split: option.splits)

lemma saveSelectedPost_duplicate_cause:
  assumes "saveSelectedPost p sc r = Inl (StorageError m ''DUPLICATE_POST'')"
  shows "valid_time (created_utc p * 1000)
    \<and> ((\<exists>d err. r = Reply d (Some err) \<and> pg_code err = ''23505''
                 \<and> m = ''Post '' @ post_id p @ '' has already been selected'')
       \<or> r = Threw (StorageError m ''DUPLICATE_POST''))"
proof -
  have vt: "valid_time (created_utc p * 1000)"
    using assms by (auto simp: saveSelectedPost_def storage_catch_def split: if_splits)
  show ?thesis
  proof (cases r)
    case (Threw e)
    then show ?thesis using assms vt
      by (cases e) (simp_all add: saveSelectedPost_def storage_catch_def)
  next
    case (Reply d err)
    then show ?thesis using assms vt
      by (cases d; cases err) (auto simp: saveSelectedPost_def split: if_splits)
  qed
qed

lemma truthy_iff: "truthy v = (\<exists>s. v = Some s \<and> s \<noteq> [])"
  by (cases v) (simp_all add: truthy_def)

lemma generate_and_store_insert [simp]:
  "generate_and_store clean (w\<lparr>insert_selected_post := x\<rparr>) best saved
   = generate_and_store clean w best saved"
  by (simp add: generate_and_store_def upload_and_store_def save_and_link_def Let_def
      split: sum.splits)

text \<open>
  Claim C1. Saving the selected post fails with the \<open>StorageError\<close> of code
  \<open>DUPLICATE_POST\<close>, which is how \<open>saveSelectedPost\<close> reports that the insert was answered
  with the uniqueness violation (code 23505; \<open>saveSelectedPost_duplicate\<close>,
  \<open>saveSelectedPost_duplicate_cause\<close>). The run then looks the post up by its Reddit id, and
  \<^item> when no row is found it fails with the \<open>OrchestrationError\<close> "Post marked as duplicate
    but not found in database", whose code is \<open>POST_SAVE_FAILED\<close> (the specification's
    PersistInconsistency);
  \<^item> when a row is found and its audio reference is set it fails with code
    \<open>POST_ALREADY_PROCESSED\<close>;
  \<^item> when a row is found and its audio reference is not set the run goes on with that row:
    generation, upload and the rest follow, and the outcome is the outcome of a run whose
    insert succeeded and returned that row.
  The audio reference counts as set when it is truthy, as the source tests it: not
  \<open>null\<close> and not the empty string (\<open>truthy_iff\<close>); the references the store issues are
  UUIDs.
\<close>

theorem duplicate_post_cases:
  assumes "selectBestPost (analyzer_log10 w) (analyzer_clock w) posts = Some best"
    and "saveSelectedPost (post best) best (insert_selected_post w)
           = Inl (StorageError m ''DUPLICATE_POST'')"
  shows "(getSelectedPostByRedditId (select_selected_post w (post_id (post best))) = Inr None \<longrightarrow>
           processPostToAudio clean w posts =
             (Inl (OrchestrationError ''Post marked as duplicate but not found in database''
                     ''POST_SAVE_FAILED''
                     (Some (StorageError m ''DUPLICATE_POST''))),
              [SaveSelectedPost (post best) best,
               GetSelectedPostByRedditId (post_id (post best))]))
       \<and> (\<forall>existing.
             getSelectedPostByRedditId (select_selected_post w (post_id (post best)))
               = Inr (Some existing)
             \<and> truthy (audio_file_id existing) \<longrightarrow>
           processPostToAudio clean w posts =
             (Inl (OrchestrationError ''Post has already been processed with audio''
                     ''POST_ALREADY_PROCESSED''
                     (Some (StorageError m ''DUPLICATE_POST''))),
              [SaveSelectedPost (post best) best,
               GetSelectedPostByRedditId (post_id (post best))]))
       \<and> (\<forall>existing.
             getSelectedPostByRedditId (select_selected_post w (post_id (post best)))
               = Inr (Some existing)
             \<and> \<not> truthy (audio_file_id existing) \<longrightarrow>
           processPostToAudio clean w posts =
             prepend [SaveSelectedPost (post best) best,
                      GetSelectedPostByRedditId (post_id (post best))]
               (generate_and_store clean w best existing)
           \<and> fst (processPostToAudio clean w posts) =
               fst (processPostToAudio clean
                      (w\<lparr>insert_selected_post := Reply (Some existing) None\<rparr>) posts))"
proof -
  have ne: "posts \<noteq> []" using assms(1) by (auto simp: selectBestPost_def)
  have vt: "valid_time (created_utc (post best) * 1000)"
    using assms(2) by (auto simp: saveSelectedPost_def storage_catch_def split: if_splits)
  have ok: "saveSelectedPost (post best) best (Reply (Some existing) None) = Inr existing"
    for existing using vt by (simp add: saveSelectedPost_def)
  show ?thesis
    using ne assms(1) assms(2) ok
    by (simp add: processPostToAudio_def persist_selected_def prepend_def wrap_unexpected_def)
qed


lemma createMockPost_selected:
  "selectBestPost nearest_log10 (fixed_clock 0) [createMockPost 0]
   = Some (scorePost nearest_log10 0 (createMockPost 0))"
proof -
  have "hasUsableTextContent (createMockPost 0)"
    using createMockPost_usable[where now=0 and x="post_id (createMockPost 0)"] by simp
  from selectBestPost_single[OF this, of nearest_log10 "fixed_clock 0"] show ?thesis
    by (simp add: fixed_clock_def)
qed

lemma example_lookup:
  "getSelectedPostByRedditId (example_store audio ''test-id'') = Inr (Some (example_row audio))"
  by (simp add: getSelectedPostByRedditId_def example_store_def)

lemma formatForTTS_createMockPost:
  "estimatedDuration (formatForTTS no_cleaning (createMockPost 0)) = 8
   \<and> wordCount (formatForTTS no_cleaning (createMockPost 0)) = 18"
proof -
  have wc: "formatter_countWords
      (''Test Post Title'' @ ''. '' @
       ''This is a test post with some content that should be analyzed by the algorithm.'') = 18"
    by (simp add: formatter_countWords_def trim_def is_space_def)
  show ?thesis
    unfolding formatForTTS_def no_cleaning_def createMockPost_def Let_def
    by (simp add: wc estimateDuration_18 MAX_DURATION_SECONDS_def del: append.simps)
qed

lemma example_generateAudio:
  "fst (generateAudio no_cleaning default_env [scripted_provider ''elevenlabs'' [Inr [1, 2, 3]]]
          (createMockPost 0))
   = Inr \<lparr> audioBuffer = [1, 2, 3], provider = ''elevenlabs'', voice = ''21m00Tcm4TlvDq8ikWAM'',
           duration = 8, sizeBytes = 3 \<rparr>"
  using formatForTTS_createMockPost
  by (simp add: generateAudio_def retry_defs scripted_provider_def tag_def voiceUsed_def
      ELEVENLABS_CONFIG_voiceId_def env_or_def default_env_def)

theorem duplicate_post_cases_witness:
  "processPostToAudio no_cleaning (duplicate_world (Some ''audio-1'')) [createMockPost 0]
   = (Inl (OrchestrationError ''Post has already been processed with audio''
             ''POST_ALREADY_PROCESSED''
             (Some (StorageError ''Post test-id has already been selected'' ''DUPLICATE_POST''))),
      [SaveSelectedPost (createMockPost 0) (scorePost nearest_log10 0 (createMockPost 0)),
       GetSelectedPostByRedditId ''test-id''])
   \<and> fst (processPostToAudio no_cleaning (duplicate_world None) [createMockPost 0])
     = Inr \<lparr> selectedPost = example_row None, audioFile = example_audio_file,
             audioUrl = ''https://storage.example/test-id.mp3'', result_duration = 8 \<rparr>"
proof -
  let ?best = "scorePost nearest_log10 0 (createMockPost 0)"
  have id: "post_id (post ?best) = ''test-id''" "post ?best = createMockPost 0"
    "post_id (createMockPost 0) = ''test-id''"
    by (simp_all add: post_scorePost createMockPost_def)
  have sel: "selectBestPost (analyzer_log10 (duplicate_world a))
      (analyzer_clock (duplicate_world a)) [createMockPost 0] = Some ?best"
    for a using createMockPost_selected by (simp add: duplicate_world_def)
  have "valid_time (created_utc (createMockPost 0) * 1000)"
    by (rule valid_timeI) (simp add: createMockPost_def)
  then have ins: "saveSelectedPost (post ?best) ?best (insert_selected_post (duplicate_world a))
      = Inl (StorageError ''Post test-id has already been selected'' ''DUPLICATE_POST'')" for a
    by (simp add: duplicate_world_def saveSelectedPost_def id)
  have look: "getSelectedPostByRedditId
      (select_selected_post (duplicate_world a) (post_id (post ?best))) = Inr (Some (example_row a))"
    for a using example_lookup by (simp add: duplicate_world_def id)
  have set: "truthy (audio_file_id (example_row (Some ''audio-1'')))"
    and unset: "\<not> truthy (audio_file_id (example_row None))"
    by (simp_all add: truthy_def example_row_def)
  note th = duplicate_post_cases[OF sel ins, where clean = no_cleaning]
  have first: "processPostToAudio no_cleaning (duplicate_world (Some ''audio-1'')) [createMockPost 0]
   = (Inl (OrchestrationError ''Post has already been processed with audio''
             ''POST_ALREADY_PROCESSED''
             (Some (StorageError ''Post test-id has already been selected'' ''DUPLICATE_POST''))),
      [SaveSelectedPost (createMockPost 0) ?best, GetSelectedPostByRedditId ''test-id''])"
    using th[of "Some ''audio-1''", THEN conjunct2, THEN conjunct1, THEN spec,
        of "example_row (Some ''audio-1'')"] look set
    by (simp add: id)
  have "processPostToAudio no_cleaning (duplicate_world None) [createMockPost 0]
      = prepend [SaveSelectedPost (post ?best) ?best, GetSelectedPostByRedditId (post_id (post ?best))]
          (generate_and_store no_cleaning (duplicate_world None) ?best (example_row None))"
    using th[of None, THEN conjunct2, THEN conjunct2, THEN spec, of "example_row None"] look unset
    by blast
  moreover have "fst (generate_and_store no_cleaning (duplicate_world None) ?best (example_row None))
      = Inr \<lparr> selectedPost = example_row None, audioFile = example_audio_file,
             audioUrl = ''https://storage.example/test-id.mp3'', result_duration = 8 \<rparr>"
    using example_generateAudio
    by (simp add: generate_and_store_def upload_and_store_def save_and_link_def Let_def
        duplicate_world_def id prepend_def uploadAudioFile_def saveAudioFile_def
        linkAudioToPost_def)
  ultimately show ?thesis using first by (simp add: prepend_def)
qed


subsection \<open>Processed posts\<close>

text \<open>
  Claim C9. \<open>isPostProcessed\<close> answers true exactly when the lookup by the Reddit id
  returns a row whose audio reference is not \<open>null\<close>; when the lookup fails with an error
  the answer is false and nothing is thrown.
\<close>

theorem isPostProcessed_iff:
  "(isPostProcessed store rid =
      (\<exists>row. getSelectedPostByRedditId (store rid) = Inr (Some row) \<and> audio_file_id row \<noteq> None))
   \<and> (\<forall>e. getSelectedPostByRedditId (store rid) = Inl e \<longrightarrow> \<not> isPostProcessed store rid)"
  by (auto simp: isPostProcessed_def split: sum.splits option.splits)

theorem isPostProcessed_iff_witness:
  "\<not> isPostProcessed failing_store ''test-id''
   \<and> isPostProcessed (example_store (Some ''audio-1'')) ''test-id''
   \<and> \<not> isPostProcessed (example_store None) ''test-id''
   \<and> \<not> isPostProcessed (example_store (Some ''audio-1'')) ''other-id''"
proof -
  have f: "getSelectedPostByRedditId (failing_store ''test-id'')
      = Inl (StorageError ''Failed to get selected post: connection failure'' ''DB_SELECT_ERROR'')"
    by (simp add: getSelectedPostByRedditId_def failing_store_def)
  have o: "getSelectedPostByRedditId (example_store a ''other-id'') = Inr None" for a
    by (simp add: getSelectedPostByRedditId_def example_store_def)
  have "\<not> isPostProcessed failing_store ''test-id''"
    using isPostProcessed_iff[of failing_store "''test-id''"] f by simp
  moreover have "isPostProcessed (example_store (Some ''audio-1'')) ''test-id''"
    using isPostProcessed_iff[of "example_store (Some ''audio-1'')" "''test-id''"] example_lookup
    by (simp add: example_row_def)
  moreover have "\<not> isPostProcessed (example_store None) ''test-id''"
    using isPostProcessed_iff[of "example_store None" "''test-id''"] example_lookup
    by (simp add: example_row_def)
  moreover have "\<not> isPostProcessed (example_store (Some ''audio-1'')) ''other-id''"
    using isPostProcessed_iff[of "example_store (Some ''audio-1'')" "''other-id''"] o
    by simp
  ultimately show ?thesis by simp
qed



subsection \<open>Duration and size of the audio\<close>

lemma generateWithRetry_loop_audio:
  "generateWithRetry_loop q tx attempt probes calls lastError = (Inr audio, t)
   \<Longrightarrow> \<exists>k. generateSpeech q tx k = Inr audio"
proof (induction q tx attempt probes calls lastError arbitrary: t
    rule: generateWithRetry_loop.induct)
  case (1 q tx attempt probes calls lastError)
  let ?down = "Error (''Provider '' @ name q @ '' is not available'')"
  note eq = "1.prems"[unfolded generateWithRetry_loop.simps[of q tx attempt probes calls lastError]]
  have le: "attempt \<le> maxAttempts" using eq by (auto split: if_splits)
  show ?case
  proof (cases "isAvailable q probes")
    case False
    have "on_catch ?down attempt \<noteq> Rethrow"
      by (simp add: on_catch_Rethrow authFailure_def)
    then obtain ws where ws: "on_catch ?down attempt = Retry ws"
      by (cases "on_catch ?down attempt") auto
    obtain t' where
      "generateWithRetry_loop q tx (Suc attempt) (Suc probes) calls (Some ?down) = (Inr audio, t')"
      using eq le False ws by (auto simp: prepend_eq)
    from "1.IH"(1)[OF le False ws this] show ?thesis .
  next
    case True
    show ?thesis
    proof (cases "generateSpeech q tx calls")
      case (Inr a)
      then have "a = audio" using eq le True by auto
      then show ?thesis using Inr by blast
    next
      case (Inl e)
      show ?thesis
      proof (cases "on_catch e attempt")
        case Rethrow
        then show ?thesis using eq le True Inl by auto
      next
        case (Retry ws)
        obtain t' where
          "generateWithRetry_loop q tx (Suc attempt) (Suc probes) (Suc calls) (Some e)
           = (Inr audio, t')"
          using eq le True Inl Retry by (auto simp: prepend_eq)
        moreover have "\<not> \<not> isAvailable q probes" using True by simp
        ultimately show ?thesis using "1.IH"(2)[OF le _ Inl Retry] by blast
      qed
    qed
  qed
qed

lemma generateAudio_loop_result:
  "generateAudio_loop env f ps i le = (Inr res, t) \<Longrightarrow>
     duration res = estimatedDuration f \<and> sizeBytes res = length (audioBuffer res)
     \<and> (\<exists>q\<in>set ps. provider res = name q
           \<and> (\<exists>k. generateSpeech q (formatted_text f) k = Inr (audioBuffer res)))"
proof (induction ps arbitrary: i le t)
  case Nil
  then show ?case by simp
next
  case (Cons q qs)
  obtain r1 t1 where g: "generateWithRetry q (formatted_text f) = (r1, t1)"
    by (cases "generateWithRetry q (formatted_text f)") auto
  show ?case
  proof (cases r1)
    case (Inr audio)
    then have res: "res = \<lparr> audioBuffer = audio, provider = name q, voice = voiceUsed env q,
        duration = estimatedDuration f, sizeBytes = length audio \<rparr>"
      using Cons.prems g by simp
    have "\<exists>k. generateSpeech q (formatted_text f) k = Inr audio"
      using g Inr generateWithRetry_loop_audio unfolding generateWithRetry_def by blast
    then show ?thesis using res by simp
  next
    case (Inl e)
    then obtain t2 where "generateAudio_loop env f qs (Suc i) (Some e) = (Inr res, t2)"
      using Cons.prems g by (auto simp: prepend_eq)
    from Cons.IH[OF this] show ?thesis by auto
  qed
qed

lemma estimateDuration_bound: "estimateDuration wc \<le> 90 \<Longrightarrow> wc \<le> 225"
proof (rule ccontr)
  assume a: "estimateDuration wc \<le> 90" and "\<not> wc \<le> 225"
  then have "226 \<le> wc" by simp
  from estimateDuration_mono[OF this] have "estimateDuration 226 \<le> 90" using a by simp
  then show False by (simp add: estimateDuration_226)
qed

lemma processPostToAudio_success:
  assumes "processPostToAudio clean w posts = (Inr out, calls)"
  shows "\<exists>best res audioData.
           selectBestPost (analyzer_log10 w) (analyzer_clock w) posts = Some best
         \<and> fst (generateAudio clean (tts_env w) (tts_providers w) (post best)) = Inr res
         \<and> SaveAudioFile audioData \<in> set calls
         \<and> data_durationSeconds audioData = duration res
         \<and> data_fileSizeBytes audioData = length (audioBuffer res)
         \<and> result_duration out = duration res"
proof -
  from assms obtain best where
    best: "selectBestPost (analyzer_log10 w) (analyzer_clock w) posts = Some best"
    by (auto simp: processPostToAudio_def split: if_splits option.splits)
  from assms best obtain saved c1 c2 where
    gs: "generate_and_store clean w best saved = (Inr out, c2)" and calls: "calls = c1 @ c2"
    by (auto simp: processPostToAudio_def prepend_eq split: if_splits prod.splits sum.splits)
  from gs obtain res c3 where
    res: "fst (generateAudio clean (tts_env w) (tts_providers w) (post best)) = Inr res"
    and us: "upload_and_store w best saved res = (Inr out, c3)"
    and c2: "c2 = GenerateAudio (post best) # c3"
    by (auto simp: generate_and_store_def prepend_eq split: sum.splits)
  from us obtain up c4 where
    up: "uploadAudioFile (audioBuffer res) (storage_upload w) (storage_public_url w) = Inr up"
    and sl: "save_and_link w saved res up = (Inr out, c4)"
    and c3: "c3 = UploadAudioFile (audioBuffer res)
                (generateAudioFileName (post_id (post best)) (provider res) (file_timestamp w))
                ''audio/mpeg'' # c4"
    by (auto simp: upload_and_store_def Let_def prepend_eq split: sum.splits)
  have size: "fileSize up = length (audioBuffer res)"
    using up by (auto simp: uploadAudioFile_def split: reply.splits option.splits)
  let ?d = "\<lparr> data_fileUrl = publicUrl up, data_durationSeconds = duration res,
             data_fileSizeBytes = fileSize up, data_format = ''mp3'',
             data_ttsProvider = provider res, data_voiceUsed = voice res \<rparr>"
  from sl have "SaveAudioFile ?d \<in> set c4" and "result_duration out = duration res"
    by (auto simp: save_and_link_def Let_def prepend_eq split: sum.splits)
  then have "SaveAudioFile ?d \<in> set calls" and "result_duration out = duration res"
    using c3 c2 calls by auto
  then show ?thesis using best res size
    by (intro exI[of _ best] exI[of _ res] exI[of _ ?d]) simp
qed

text \<open>
  Claim C10. When \<open>generateAudio\<close> succeeds, the duration it reports is the estimate of
  \<open>formatForTTS\<close> for the post: the ceiling of \<open>wordCount / 150 * 60\<close>, where \<open>wordCount\<close>
  counts the words of the text after the truncation to 225 words, so that the estimate is
  at most 90 seconds. It is a function of the post alone: the audio that a provider
  returns has no part in it. \<open>sizeBytes\<close> is the length of the buffer returned, which is
  the outcome of a call of \<open>generateSpeech\<close> on one of the providers. In a run of
  \<open>processPostToAudio\<close> that succeeds, the metadata sent to \<open>saveAudioFile\<close> carries that
  estimated duration and the length of the buffer, and the result reports the same
  duration. The division and the multiplication are each rounded to a double before the
  ceiling is taken, as in the code; for most word counts this is the ceiling of the exact
  quotient, and \<open>estimateDuration_155\<close> shows a count where the rounding adds a second.
\<close>

theorem duration_is_estimated_from_words:
  "(generateAudio clean env ps p = (Inr res, t) \<longrightarrow>
      duration res = estimatedDuration (formatForTTS clean p)
    \<and> duration res = \<lceil>double (double (real (wordCount (formatForTTS clean p)) / 150) * 60)\<rceil>
    \<and> wordCount (formatForTTS clean p) \<le> 225
    \<and> duration res \<le> 90
    \<and> sizeBytes res = length (audioBuffer res)
    \<and> (\<exists>q\<in>set ps. \<exists>k.
          generateSpeech q (formatted_text (formatForTTS clean p)) k = Inr (audioBuffer res)))
   \<and> (processPostToAudio clean w posts = (Inr out, calls) \<longrightarrow>
      (\<exists>best audioResult audioData.
          selectBestPost (analyzer_log10 w) (analyzer_clock w) posts = Some best
        \<and> fst (generateAudio clean (tts_env w) (tts_providers w) (post best)) = Inr audioResult
        \<and> SaveAudioFile audioData \<in> set calls
        \<and> data_durationSeconds audioData = estimatedDuration (formatForTTS clean (post best))
        \<and> data_fileSizeBytes audioData = length (audioBuffer audioResult)
        \<and> result_duration out = estimatedDuration (formatForTTS clean (post best))))"
proof (intro conjI impI)
  assume a: "generateAudio clean env ps p = (Inr res, t)"
  let ?f = "formatForTTS clean p"
  from generateAudio_loop_result[OF a[unfolded generateAudio_def]]
  have d: "duration res = estimatedDuration ?f" and s: "sizeBytes res = length (audioBuffer res)"
    and q: "\<exists>q\<in>set ps. \<exists>k. generateSpeech q (formatted_text ?f) k = Inr (audioBuffer res)"
    by auto
  have e: "estimatedDuration ?f = estimateDuration (wordCount ?f)" "estimatedDuration ?f \<le> 90"
    using formatForTTS_duration[of clean p] by simp_all
  show "duration res = estimatedDuration ?f" by (rule d)
  show "duration res = \<lceil>double (double (real (wordCount ?f) / 150) * 60)\<rceil>"
    using d e by (simp add: estimateDuration_def WORDS_PER_MINUTE_def)
  show "wordCount ?f \<le> 225" using e estimateDuration_bound by simp
  show "duration res \<le> 90" using d e by simp
  show "sizeBytes res = length (audioBuffer res)" by (rule s)
  show "\<exists>q\<in>set ps. \<exists>k. generateSpeech q (formatted_text ?f) k = Inr (audioBuffer res)"
    by (rule q)
next
  assume "processPostToAudio clean w posts = (Inr out, calls)"
  from processPostToAudio_success[OF this] obtain best res audioData where
    b: "selectBestPost (analyzer_log10 w) (analyzer_clock w) posts = Some best"
    and r: "fst (generateAudio clean (tts_env w) (tts_providers w) (post best)) = Inr res"
    and rest: "SaveAudioFile audioData \<in> set calls"
      "data_durationSeconds audioData = duration res"
      "data_fileSizeBytes audioData = length (audioBuffer res)"
      "result_duration out = duration res"
    by blast
  obtain t where "generateAudio clean (tts_env w) (tts_providers w) (post best) = (Inr res, t)"
    using r by (cases "generateAudio clean (tts_env w) (tts_providers w) (post best)") auto
  from generateAudio_loop_result[OF this[unfolded generateAudio_def]]
  have "duration res = estimatedDuration (formatForTTS clean (post best))" by simp
  then show "\<exists>best audioResult audioData.
          selectBestPost (analyzer_log10 w) (analyzer_clock w) posts = Some best
        \<and> fst (generateAudio clean (tts_env w) (tts_providers w) (post best)) = Inr audioResult
        \<and> SaveAudioFile audioData \<in> set calls
        \<and> data_durationSeconds audioData = estimatedDuration (formatForTTS clean (post best))
        \<and> data_fileSizeBytes audioData = length (audioBuffer audioResult)
        \<and> result_duration out = estimatedDuration (formatForTTS clean (post best))"
    using b r rest by (intro exI[of _ best] exI[of _ res] exI[of _ audioData]) simp
qed

theorem duration_is_estimated_from_words_witness:
  "generateAudio no_cleaning default_env [scripted_provider ''elevenlabs'' [Inr [1, 2, 3]]]
     (createMockPost 0)
   = (Inr \<lparr> audioBuffer = [1, 2, 3], provider = ''elevenlabs'', voice = ''21m00Tcm4TlvDq8ikWAM'',
            duration = 8, sizeBytes = 3 \<rparr>,
      [(0, Probe True), (0, Synthesize (Inr [1, 2, 3]))])
   \<and> wordCount (formatForTTS no_cleaning (createMockPost 0)) = 18
   \<and> \<lceil>double (double (real (wordCount (formatForTTS no_cleaning (createMockPost 0))) / 150)
               * 60)\<rceil> = 8"
proof -
  have run: "generateAudio no_cleaning default_env [scripted_provider ''elevenlabs'' [Inr [1, 2, 3]]]
     (createMockPost 0)
   = (Inr \<lparr> audioBuffer = [1, 2, 3], provider = ''elevenlabs'', voice = ''21m00Tcm4TlvDq8ikWAM'',
            duration = 8, sizeBytes = 3 \<rparr>,
      [(0, Probe True), (0, Synthesize (Inr [1, 2, 3]))])"
    using formatForTTS_createMockPost
    by (simp add: generateAudio_def retry_defs scripted_provider_def tag_def voiceUsed_def
        ELEVENLABS_CONFIG_voiceId_def env_or_def default_env_def)
  from duration_is_estimated_from_words[THEN conjunct1, THEN mp, OF run]
  have "8 = \<lceil>double (double (real (wordCount (formatForTTS no_cleaning (createMockPost 0)))
                               / 150) * 60)\<rceil>"
    by simp
  then show ?thesis using run formatForTTS_createMockPost by simp
qed

end
